theory Spec2Isabelle
  imports Complex_Main "HOL-Library.Log_Nat"
begin

chapter \<open>BasicSpatial: a grid index for nearest-neighbour queries\<close>

text \<open>
  A shallow embedding of \<^verbatim>\<open>src/spatial/BasicSpatial.hpp\<close>: the class stores points in a
  fixed matrix of buckets and answers nearest-neighbour queries by scanning a growing window
  of buckets around the bucket of the reference point.
\<close>

section \<open>Configuration constants\<close>

text \<open>
  \<^verbatim>\<open>const int DIV = 10; const int MAX = 1000;\<close>
  (\<open>MAX\<close> is reserved syntax of the logic, hence the suffix.)
\<close>

definition DIV :: int where
  "DIV = 10"

definition MAX_coord :: int where
  "MAX_coord = 1000"

section \<open>The hash function\<close>

text \<open>
  \<^verbatim>\<open>int hash_func (int coord) { return (float(coord) / DIV); }\<close>

  The coordinate is converted to single precision, divided by \<open>DIV\<close> in single precision
  and the quotient is converted back to \<open>int\<close>, which truncates towards zero. Single
  precision is IEEE 754 binary32 with round-to-nearest, ties-to-even; \<open>binary32\<close> below
  rounds a rational to 24 significant bits in that mode. The exponent range of the format
  is not modelled: \<open>binary32\<close> agrees with the format for the magnitudes that arise
  here, which are zero or lie between \<open>1 / DIV\<close> and \<open>2 ^ 31\<close> (it departs from the
  format only below \<open>2 ^ - 24\<close>, where \<open>binade\<close> is 0, and above \<open>2 ^ 128\<close>).
\<close>

definition round_even :: "rat \<Rightarrow> int" where
  "round_even q =
     (let f = \<lfloor>q\<rfloor>; r = q - of_int f
      in if r < 1 / 2 then f
         else if 1 / 2 < r then f + 1
         else if even f then f else f + 1)"

text \<open>
  \<open>binade q\<close> is the number \<open>n\<close> with \<open>2 ^ (n - 1) \<le> \<bar>q\<bar> * 2 ^ 24 < 2 ^ n\<close>, so that
  \<open>\<bar>q\<bar> * 2 ^ 48 / 2 ^ n\<close> lies in \<open>[2 ^ 23, 2 ^ 24)\<close>: the significand as an integer of 24 bits,
  with unit in the last place \<open>2 ^ n / 2 ^ 48\<close>.
\<close>

definition binade :: "rat \<Rightarrow> nat" where
  "binade q = floorlog 2 (nat \<lfloor>\<bar>q\<bar> * 2 ^ 24\<rfloor>)"

definition binary32 :: "rat \<Rightarrow> rat" where
  "binary32 q = of_int (round_even (q * 2 ^ 48 / 2 ^ binade q)) * 2 ^ binade q / 2 ^ 48"

definition trunc :: "rat \<Rightarrow> int" where
  "trunc q = (if 0 \<le> q then \<lfloor>q\<rfloor> else \<lceil>q\<rceil>)"

definition hash_func :: "int \<Rightarrow> int" where
  "hash_func coord = trunc (binary32 (binary32 (of_int coord) / of_int DIV))"


section \<open>Points\<close>

text \<open>
  Modelled from the spec: the \<open>Point\<close> collaborator, whose header is not among the sources.
  The class reads a point through \<^verbatim>\<open>get(0)\<close> and \<^verbatim>\<open>get(1)\<close>, which it passes to
  \<open>hash_func\<close> as \<open>int\<close>, builds points from two coordinates (\<^verbatim>\<open>Point({0, 0})\<close>,
  \<^verbatim>\<open>Point({-1, -1})\<close>) and compares the values of \<^verbatim>\<open>i.distance(reference_)\<close>.
  The distance function is a parameter \<open>d\<close> of the functions below (\<open>d i reference\<close> is
  \<^verbatim>\<open>i.distance(reference)\<close>), so that every theorem holds for any distance;
  \<open>distance\<close> is the Euclidean one of the spec's scenarios, used for concrete runs.
\<close>

datatype point = Point (px: int) (py: int)

definition get :: "point \<Rightarrow> nat \<Rightarrow> int" where
  "get p i = (if i = 0 then px p else py p)"

definition distance :: "point \<Rightarrow> point \<Rightarrow> real" where
  "distance p q = sqrt (of_int ((px p - px q) ^ 2 + (py p - py q) ^ 2))"

section \<open>The grid and insertion\<close>

text \<open>
  \<^verbatim>\<open>std::vector<std::vector<std::list<Point>>> GRID\<close>, built with \<open>(MAX/DIV)+1\<close> columns of
  \<open>(MAX/DIV)+1\<close> empty lists. \<^verbatim>\<open>operator[]\<close> of a vector has no defined result outside
  \<open>[0, size)\<close>; the embedding returns \<open>OutOfBounds\<close> there (a negative \<open>int\<close> index converts
  to an index beyond every size).
\<close>

datatype error = OutOfBounds

type_synonym grid = "point list list list"

definition empty_grid :: grid where
  "empty_grid =
     replicate (nat (MAX_coord div DIV + 1)) (replicate (nat (MAX_coord div DIV + 1)) [])"

definition subscript :: "'a list \<Rightarrow> int \<Rightarrow> error + 'a" where
  "subscript xs i =
     (if 0 \<le> i \<and> i < int (length xs) then Inr (xs ! nat i) else Inl OutOfBounds)"

definition cell :: "grid \<Rightarrow> int \<Rightarrow> int \<Rightarrow> error + point list" where
  "cell GRID x y = (case subscript GRID x of Inl e \<Rightarrow> Inl e | Inr column \<Rightarrow> subscript column y)"

definition insert_point :: "grid \<Rightarrow> point \<Rightarrow> error + grid" where
  "insert_point GRID new_point =
     (let x = hash_func (get new_point 0);
          y = hash_func (get new_point 1);
          x = (if x < 0 then 0 else x);
          y = (if y < 0 then 0 else y);
          x = (if x > hash_func MAX_coord then hash_func MAX_coord else x);
          y = (if y > hash_func MAX_coord then hash_func MAX_coord else y)
      in case subscript GRID x of
           Inl e \<Rightarrow> Inl e
         | Inr column \<Rightarrow>
             (case subscript column y of
                Inl e \<Rightarrow> Inl e
              | Inr a \<Rightarrow> Inr (GRID[nat x := column[nat y := a @ [new_point]]])))"

text \<open>A sequence of calls of \<open>insert\<close>, stopping at the first failure.\<close>

fun inserts :: "grid \<Rightarrow> point list \<Rightarrow> error + grid" where
  "inserts GRID [] = Inr GRID"
| "inserts GRID (p # ps) =
     (case insert_point GRID p of Inl e \<Rightarrow> Inl e | Inr GRID' \<Rightarrow> inserts GRID' ps)"

section \<open>Scanning the rows of a window\<close>

text \<open>
  The three output parameters \<^verbatim>\<open>nearest_\<close>, \<^verbatim>\<open>dist_\<close> and \<^verbatim>\<open>fstset_\<close> of
  \<open>find_nearest\<close> are one record, passed in and returned. \<open>visit\<close> is the body of the two
  (identical) range-for loops over a bucket, and \<open>scan\<close> is such a loop.
\<close>

record best =
  nearest :: point
  distv :: real
  fstset :: bool

definition visit :: "(point \<Rightarrow> point \<Rightarrow> real) \<Rightarrow> point \<Rightarrow> point \<Rightarrow> best \<Rightarrow> best" where
  "visit d reference i b =
     (if \<not> fstset b then \<lparr>nearest = i, distv = d i reference, fstset = True\<rparr>
      else if d i reference < distv b then b\<lparr>nearest := i, distv := d i reference\<rparr>
      else b)"

fun scan :: "(point \<Rightarrow> point \<Rightarrow> real) \<Rightarrow> point \<Rightarrow> point list \<Rightarrow> best \<Rightarrow> best" where
  "scan d reference [] b = b"
| "scan d reference (i # rest) b = scan d reference rest (visit d reference i b)"

text \<open>
  The loop \<^verbatim>\<open>for (int curx = maxx; curx >= minx; curx--)\<close>. Its body assigns to \<open>curx\<close>,
  \<open>maxy\<close> and \<open>miny\<close> before it reads the two buckets; with a negative \<open>minx\<close> the loop
  would reset \<open>curx\<close> to 0 for ever, so it is a partial function, and \<open>None\<close> is the
  loop that does not return.
\<close>

partial_function (option) scan_columns ::
  "(point \<Rightarrow> point \<Rightarrow> real) \<Rightarrow> grid \<Rightarrow> point \<Rightarrow> int \<Rightarrow> int \<Rightarrow> int \<Rightarrow> int \<Rightarrow> best
     \<Rightarrow> (error + best) option" where
  "scan_columns d GRID reference curx minx maxy miny b =
     (if curx \<ge> minx then
        (let curx = (if curx < 0 then 0 else curx);
             maxy = (if maxy < 0 then 0 else maxy);
             curx = (if curx > hash_func MAX_coord then hash_func MAX_coord else curx);
             maxy = (if maxy > hash_func MAX_coord then hash_func MAX_coord else maxy);
             miny = (if miny < 0 then 0 else miny);
             miny = (if miny > hash_func MAX_coord then hash_func MAX_coord else miny)
         in case cell GRID curx maxy of
              Inl e \<Rightarrow> Some (Inl e)
            | Inr top_cell \<Rightarrow>
                (let b = scan d reference top_cell b
                 in case cell GRID curx miny of
                      Inl e \<Rightarrow> Some (Inl e)
                    | Inr bottom_cell \<Rightarrow>
                        scan_columns d GRID reference (curx - 1) minx maxy miny
                          (scan d reference bottom_cell b)))
      else Some (Inr b))"

text \<open>
  \<open>find_nearest\<close> clamps the four bounds and runs the loop over the columns, which reads
  the top and the bottom row. The second loop of the source, over the rows between them in
  the columns \<open>maxx\<close> and \<open>minx\<close>, is commented out there and is not part of the function.
\<close>

definition find_nearest ::
  "(point \<Rightarrow> point \<Rightarrow> real) \<Rightarrow> grid \<Rightarrow> int \<Rightarrow> int \<Rightarrow> int \<Rightarrow> int \<Rightarrow> point \<Rightarrow> best
     \<Rightarrow> (error + best) option" where
  "find_nearest d GRID maxx maxy minx miny reference b =
     (let minx = (if minx < 0 then 0 else minx);
          miny = (if miny < 0 then 0 else miny);
          maxx = (if maxx > hash_func MAX_coord then hash_func MAX_coord else maxx);
          maxy = (if maxy > hash_func MAX_coord then hash_func MAX_coord else maxy)
      in scan_columns d GRID reference maxx minx maxy miny b)"

section \<open>The query\<close>

text \<open>\<^verbatim>\<open>__DBL_MAX__\<close>, the largest finite double.\<close>

definition DBL_MAX :: real where
  "DBL_MAX = (2 - 1 / 2 ^ 52) * 2 ^ 1023"

text \<open>
  The loop \<^verbatim>\<open>while (!fstset)\<close> of \<open>nearest_neighbor\<close>, with its early return of
  \<^verbatim>\<open>Point({-1, -1})\<close>. The last argument counts the iterations of the loop, that is, the
  times its body is entered, the entry that takes the early return included; it is not a
  variable of the source and has no influence on the point returned.
  The window bounds are mathematical integers: from a 32-bit coordinate \<open>hash_func\<close> yields
  a magnitude below \<open>2 ^ 28\<close>, and the loop moves a bound away from it by at most that
  magnitude plus the grid size, so the \<open>int\<close> arithmetic of the source does not overflow.
\<close>

function while_loop ::
  "(point \<Rightarrow> point \<Rightarrow> real) \<Rightarrow> grid \<Rightarrow> point \<Rightarrow> int \<Rightarrow> int \<Rightarrow> int \<Rightarrow> int \<Rightarrow> best \<Rightarrow> nat
     \<Rightarrow> (error + point \<times> nat) option" where
  "while_loop d GRID reference curmaxx curmaxy curminx curminy b n =
     (if \<not> fstset b then
        (if curmaxy > hash_func MAX_coord \<and> curmaxx > hash_func MAX_coord
            \<and> curminx < 0 \<and> curminy < 0
         then Some (Inr (Point (- 1) (- 1), Suc n))
         else
           (case find_nearest d GRID curmaxx curmaxy curminx curminy reference b of
              None \<Rightarrow> None
            | Some (Inl e) \<Rightarrow> Some (Inl e)
            | Some (Inr b1) \<Rightarrow>
                (if fstset b1 then
                   (case find_nearest d GRID (curmaxx + 1) (curmaxy + 1) (curminx - 1)
                           (curminy - 1) reference b1 of
                      None \<Rightarrow> None
                    | Some (Inl e) \<Rightarrow> Some (Inl e)
                    | Some (Inr b2) \<Rightarrow>
                        while_loop d GRID reference (curmaxx + 1) (curmaxy + 1) (curminx - 1)
                          (curminy - 1) b2 (Suc n))
                 else
                   while_loop d GRID reference (curmaxx + 1) (curmaxy + 1) (curminx - 1)
                     (curminy - 1) b1 (Suc n))))
      else Some (Inr (nearest b, n)))"
  by pat_completeness auto
termination
proof (relation "measure (\<lambda>(d, GRID, reference, curmaxx, curmaxy, curminx, curminy, b, n).
        if fstset b then 0
        else 1 + nat (hash_func MAX_coord + 1 - curmaxy) + nat (hash_func MAX_coord + 1 - curmaxx)
               + nat (curminx + 1) + nat (curminy + 1))", goal_cases)
  case 1
  show ?case by simp
next
  case (2 d GRID reference curmaxx curmaxy curminx curminy b n x2 b1 x2a b2)
  then show ?case by (simp split: if_splits) linarith
next
  case (3 d GRID reference curmaxx curmaxy curminx curminy b n x2 b1)
  then show ?case by (simp split: if_splits) linarith
qed

declare while_loop.simps [simp del]

definition nearest_neighbor_run ::
  "(point \<Rightarrow> point \<Rightarrow> real) \<Rightarrow> grid \<Rightarrow> point \<Rightarrow> (error + point \<times> nat) option" where
  "nearest_neighbor_run d GRID reference =
     (let x = hash_func (get reference 0);
          y = hash_func (get reference 1)
      in while_loop d GRID reference x y x y
           \<lparr>nearest = Point 0 0, distv = DBL_MAX, fstset = False\<rparr> 0)"

definition nearest_neighbor ::
  "(point \<Rightarrow> point \<Rightarrow> real) \<Rightarrow> grid \<Rightarrow> point \<Rightarrow> (error + point) option" where
  "nearest_neighbor d GRID reference =
     map_option (map_sum id fst) (nearest_neighbor_run d GRID reference)"


section \<open>The query as a transition of the object\<close>

text \<open>
  The functions above take \<open>GRID\<close> as an argument and return the outputs only. To state
  what a call does to the object, the same statements are embedded once more with the state
  of the object, its member \<open>GRID\<close>, passed through each of them and returned at the end:
  \<open>insert\<close> is \<open>insert_point\<close>, which returns the new state, and the query is
  \<open>nearest_neighbor_st\<close>. A function returns the state its last statement leaves.
\<close>

text \<open>
  The read \<^verbatim>\<open>GRID[x][y]\<close> of a range-for loop: it yields the bucket (the loop copies each
  point, \<^verbatim>\<open>auto i\<close>) and leaves the object as it is.
\<close>

definition read_cell :: "int \<Rightarrow> int \<Rightarrow> grid \<Rightarrow> (error + point list) \<times> grid" where
  "read_cell x y GRID = (cell GRID x y, GRID)"

text \<open>The loop over the columns, \<open>find_nearest\<close> and the loop of the query, as above.\<close>

partial_function (option) scan_columns_st ::
  "(point \<Rightarrow> point \<Rightarrow> real) \<Rightarrow> point \<Rightarrow> int \<Rightarrow> int \<Rightarrow> int \<Rightarrow> int \<Rightarrow> best \<Rightarrow> grid
     \<Rightarrow> ((error + best) \<times> grid) option" where
  "scan_columns_st d reference curx minx maxy miny b GRID =
     (if curx \<ge> minx then
        (let curx = (if curx < 0 then 0 else curx);
             maxy = (if maxy < 0 then 0 else maxy);
             curx = (if curx > hash_func MAX_coord then hash_func MAX_coord else curx);
             maxy = (if maxy > hash_func MAX_coord then hash_func MAX_coord else maxy);
             miny = (if miny < 0 then 0 else miny);
             miny = (if miny > hash_func MAX_coord then hash_func MAX_coord else miny)
         in case read_cell curx maxy GRID of
              (Inl e, GRID1) \<Rightarrow> Some (Inl e, GRID1)
            | (Inr top_cell, GRID1) \<Rightarrow>
                (let b = scan d reference top_cell b
                 in case read_cell curx miny GRID1 of
                      (Inl e, GRID2) \<Rightarrow> Some (Inl e, GRID2)
                    | (Inr bottom_cell, GRID2) \<Rightarrow>
                        scan_columns_st d reference (curx - 1) minx maxy miny
                          (scan d reference bottom_cell b) GRID2))
      else Some (Inr b, GRID))"

definition find_nearest_st ::
  "(point \<Rightarrow> point \<Rightarrow> real) \<Rightarrow> int \<Rightarrow> int \<Rightarrow> int \<Rightarrow> int \<Rightarrow> point \<Rightarrow> best \<Rightarrow> grid
     \<Rightarrow> ((error + best) \<times> grid) option" where
  "find_nearest_st d maxx maxy minx miny reference b GRID =
     (let minx = (if minx < 0 then 0 else minx);
          miny = (if miny < 0 then 0 else miny);
          maxx = (if maxx > hash_func MAX_coord then hash_func MAX_coord else maxx);
          maxy = (if maxy > hash_func MAX_coord then hash_func MAX_coord else maxy)
      in scan_columns_st d reference maxx minx maxy miny b GRID)"

function while_loop_st ::
  "(point \<Rightarrow> point \<Rightarrow> real) \<Rightarrow> point \<Rightarrow> int \<Rightarrow> int \<Rightarrow> int \<Rightarrow> int \<Rightarrow> best \<Rightarrow> grid
     \<Rightarrow> ((error + point) \<times> grid) option" where
  "while_loop_st d reference curmaxx curmaxy curminx curminy b GRID =
     (if \<not> fstset b then
        (if curmaxy > hash_func MAX_coord \<and> curmaxx > hash_func MAX_coord
            \<and> curminx < 0 \<and> curminy < 0
         then Some (Inr (Point (- 1) (- 1)), GRID)
         else
           (case find_nearest_st d curmaxx curmaxy curminx curminy reference b GRID of
              None \<Rightarrow> None
            | Some (Inl e, GRID1) \<Rightarrow> Some (Inl e, GRID1)
            | Some (Inr b1, GRID1) \<Rightarrow>
                (if fstset b1 then
                   (case find_nearest_st d (curmaxx + 1) (curmaxy + 1) (curminx - 1)
                           (curminy - 1) reference b1 GRID1 of
                      None \<Rightarrow> None
                    | Some (Inl e, GRID2) \<Rightarrow> Some (Inl e, GRID2)
                    | Some (Inr b2, GRID2) \<Rightarrow>
                        while_loop_st d reference (curmaxx + 1) (curmaxy + 1) (curminx - 1)
                          (curminy - 1) b2 GRID2)
                 else
                   while_loop_st d reference (curmaxx + 1) (curmaxy + 1) (curminx - 1)
                     (curminy - 1) b1 GRID1)))
      else Some (Inr (nearest b), GRID))"
  by pat_completeness auto
termination
proof (relation "measure (\<lambda>(d, reference, curmaxx, curmaxy, curminx, curminy, b, GRID).
        if fstset b then 0
        else 1 + nat (hash_func MAX_coord + 1 - curmaxy) + nat (hash_func MAX_coord + 1 - curmaxx)
               + nat (curminx + 1) + nat (curminy + 1))", goal_cases)
  case 1
  show ?case by simp
next
  case 2
  then show ?case by (simp split: if_splits) linarith
next
  case 3
  then show ?case by (simp split: if_splits) linarith
qed

declare while_loop_st.simps [simp del]

definition nearest_neighbor_st ::
  "(point \<Rightarrow> point \<Rightarrow> real) \<Rightarrow> point \<Rightarrow> grid \<Rightarrow> ((error + point) \<times> grid) option" where
  "nearest_neighbor_st d reference GRID =
     (let x = hash_func (get reference 0);
          y = hash_func (get reference 1)
      in while_loop_st d reference x y x y
           \<lparr>nearest = Point 0 0, distv = DBL_MAX, fstset = False\<rparr> GRID)"

section \<open>Notions of the specification\<close>

text \<open>The shape the constructor gives \<open>GRID\<close>; \<open>insert\<close> keeps it.\<close>

definition wf_grid :: "grid \<Rightarrow> bool" where
  "wf_grid GRID \<longleftrightarrow>
     length GRID = nat (MAX_coord div DIV + 1) \<and>
     (\<forall>column \<in> set GRID. length column = nat (MAX_coord div DIV + 1))"

text \<open>The points of a bucket, and none outside the grid.\<close>

definition cell_points :: "grid \<Rightarrow> int \<Rightarrow> int \<Rightarrow> point list" where
  "cell_points GRID x y = (case cell GRID x y of Inl e \<Rightarrow> [] | Inr ps \<Rightarrow> ps)"

text \<open>The specification's \<open>clamp(i, 0, MAX/DIV)\<close>.\<close>

definition clamp_index :: "int \<Rightarrow> int" where
  "clamp_index i = max 0 (min i (MAX_coord div DIV))"

text \<open>
  The specification's bucket of a point (invariant I1):
  \<open>gx = clamp(floor(x/DIV), 0, MAX/DIV)\<close>, and \<open>gy\<close> alike; \<open>div\<close> on \<open>int\<close> rounds down.
\<close>

definition spec_cell :: "point \<Rightarrow> int \<times> int" where
  "spec_cell p = (clamp_index (get p 0 div DIV), clamp_index (get p 1 div DIV))"

text \<open>
  The specification's scan of \<open>find_nearest\<close>: for every \<open>x\<close> of the clamped range, from the
  highest down, the bucket of the top row and then the bucket of the bottom row.
\<close>

definition perimeter_rows :: "int \<Rightarrow> int \<Rightarrow> int \<Rightarrow> int \<Rightarrow> (int \<times> int) list" where
  "perimeter_rows maxx maxy minx miny =
     concat (map (\<lambda>x. [(x, clamp_index maxy), (x, clamp_index miny)])
                 (rev [max minx 0 .. min maxx (MAX_coord div DIV)]))"

definition ring_points :: "grid \<Rightarrow> int \<Rightarrow> int \<Rightarrow> int \<Rightarrow> int \<Rightarrow> point list" where
  "ring_points GRID maxx maxy minx miny =
     concat (map (\<lambda>(x, y). cell_points GRID x y) (perimeter_rows maxx maxy minx miny))"

text \<open>
  The number of windows, from the given one on, for which the early return of
  \<open>nearest_neighbor\<close> does not fire: the window must have left the grid on all four sides.
\<close>

definition rings_left :: "int \<Rightarrow> int \<Rightarrow> int \<Rightarrow> int \<Rightarrow> nat" where
  "rings_left maxx maxy minx miny =
     nat (max (max (MAX_coord div DIV + 1 - maxy) (MAX_coord div DIV + 1 - maxx))
              (max (minx + 1) (miny + 1)))"

text \<open>A grid that holds the single point \<open>p\<close>, in bucket \<open>(i, j)\<close>, and the initial \<open>best\<close>.\<close>

definition one_point_grid :: "nat \<Rightarrow> nat \<Rightarrow> point \<Rightarrow> grid" where
  "one_point_grid i j p = empty_grid[i := (empty_grid ! i)[j := [p]]]"

definition no_best :: best where
  "no_best = \<lparr>nearest = Point 0 0, distv = DBL_MAX, fstset = False\<rparr>"

section \<open>Rounding to single precision\<close>

lemma round_even_of_int: "round_even (of_int z) = z"
  by (simp add: round_even_def)

lemma round_even_bounds: "\<lfloor>q\<rfloor> \<le> round_even q \<and> round_even q \<le> \<lfloor>q\<rfloor> + 1"
  by (simp add: round_even_def Let_def)

lemma round_even_err: "\<bar>of_int (round_even q) - q\<bar> \<le> 1 / 2"
proof -
  have "of_int \<lfloor>q\<rfloor> \<le> q" "q < of_int \<lfloor>q\<rfloor> + 1" by linarith+
  then show ?thesis
    by (auto simp: round_even_def Let_def abs_le_iff)
qed

lemma round_even_ge_int: "of_int z \<le> q \<Longrightarrow> z \<le> round_even q"
proof -
  assume "of_int z \<le> q"
  then have "z \<le> \<lfloor>q\<rfloor>" by (simp add: le_floor_iff)
  with round_even_bounds [of q] show ?thesis by linarith
qed

lemma round_even_le_int: "q \<le> of_int z \<Longrightarrow> round_even q \<le> z"
proof -
  assume h: "q \<le> of_int z"
  show ?thesis
  proof (cases "q = of_int z")
    case True
    then show ?thesis by (simp add: round_even_of_int)
  next
    case False
    with h have "q < of_int z" by simp
    then have "\<lfloor>q\<rfloor> < z" by (simp add: floor_less_iff)
    with round_even_bounds [of q] show ?thesis by linarith
  qed
qed

lemma binade_bounds:
  assumes "1 \<le> q * 2 ^ 24"
  shows "2 ^ (binade q - 1) \<le> q * 2 ^ 24" and "q * 2 ^ 24 < 2 ^ binade q" and "0 < binade q"
proof -
  let ?N = "nat \<lfloor>\<bar>q\<bar> * 2 ^ 24\<rfloor>"
  from assms have q0: "0 < q"
    by (metis less_le_trans zero_less_mult_pos2 zero_less_numeral zero_less_one zero_less_power)
  then have absq: "\<bar>q\<bar> = q" by simp
  from assms have "1 \<le> \<lfloor>q * 2 ^ 24\<rfloor>" by (simp add: le_floor_iff)
  then have N0: "0 < ?N" by (simp add: absq)
  from floorlog_bounds [OF N0, of 2]
  have b: "2 ^ (binade q - 1) \<le> ?N" "?N < 2 ^ binade q" by (simp_all add: binade_def)
  have Nq: "int ?N = \<lfloor>q * 2 ^ 24\<rfloor>" using N0 by (simp add: absq)
  from b(1) have "(2::int) ^ (binade q - 1) \<le> int ?N"
    by (metis of_nat_le_iff of_nat_numeral of_nat_power)
  then have "(2::int) ^ (binade q - 1) \<le> \<lfloor>q * 2 ^ 24\<rfloor>" by (simp only: Nq)
  then have "of_int ((2::int) ^ (binade q - 1)) \<le> q * 2 ^ 24" by (simp only: le_floor_iff)
  then show "2 ^ (binade q - 1) \<le> q * 2 ^ 24" by simp
  from b(2) have "int ?N < 2 ^ binade q"
    by (metis of_nat_less_iff of_nat_numeral of_nat_power)
  then have "\<lfloor>q * 2 ^ 24\<rfloor> < 2 ^ binade q" by (simp only: Nq)
  then have "q * 2 ^ 24 < of_int (2 ^ binade q)" by (simp only: floor_less_iff)
  then show "q * 2 ^ 24 < 2 ^ binade q" by simp
  show "0 < binade q" using N0 by (simp add: binade_def floorlog_def)
qed

lemma binade_le:
  assumes "0 \<le> q" "q * 2 ^ 24 < 2 ^ w"
  shows "binade q \<le> w"
proof -
  from assms have "\<lfloor>q * 2 ^ 24\<rfloor> < 2 ^ w"
    by (simp add: floor_less_iff)
  then have "nat \<lfloor>\<bar>q\<bar> * 2 ^ 24\<rfloor> < 2 ^ w"
    using assms(1) by (simp add: nat_less_iff)
  then show ?thesis unfolding binade_def by (intro floorlog_leI) simp_all
qed

lemma binary32_alt:
  "binary32 q = of_int (round_even (q * 2 ^ 48 / 2 ^ binade q)) * (2 ^ binade q / 2 ^ 48)"
  by (simp add: binary32_def)

lemma binary32_nonneg: "0 \<le> q \<Longrightarrow> 0 \<le> binary32 q"
proof -
  assume "0 \<le> q"
  then have "of_int 0 \<le> q * 2 ^ 48 / 2 ^ binade q" by simp
  then have "0 \<le> round_even (q * 2 ^ 48 / 2 ^ binade q)" by (rule round_even_ge_int)
  then show ?thesis by (simp add: binary32_def)
qed

lemma binary32_nonpos: "q \<le> 0 \<Longrightarrow> binary32 q \<le> 0"
proof -
  assume "q \<le> 0"
  then have "q * 2 ^ 48 / 2 ^ binade q \<le> of_int 0"
    by (simp add: divide_nonpos_pos mult_nonpos_nonneg)
  then have "round_even (q * 2 ^ 48 / 2 ^ binade q) \<le> 0" by (rule round_even_le_int)
  then show ?thesis
    by (simp add: binary32_def divide_nonpos_pos mult_nonpos_nonneg)
qed

lemma binary32_err:
  assumes "0 \<le> q" "q < 2 ^ 21"
  shows "\<bar>binary32 q - q\<bar> \<le> 1 / 16"
proof -
  let ?n = "binade q"
  let ?x = "q * 2 ^ 48 / 2 ^ ?n"
  from assms(2) have "q * 2 ^ 24 < 2 ^ 21 * 2 ^ 24" by simp
  then have "q * 2 ^ 24 < 2 ^ 45" by simp
  with assms(1) have n45: "?n \<le> 45" by (rule binade_le)
  have u: "(2::rat) ^ ?n / 2 ^ 48 \<le> 1 / 8"
  proof -
    have "(2::rat) ^ ?n \<le> 2 ^ 45" using n45 by (intro power_increasing) simp_all
    then show ?thesis by simp
  qed
  have eq: "binary32 q - q = (of_int (round_even ?x) - ?x) * (2 ^ ?n / 2 ^ 48)"
    by (simp add: binary32_def field_simps)
  have "\<bar>binary32 q - q\<bar> = \<bar>of_int (round_even ?x) - ?x\<bar> * (2 ^ ?n / 2 ^ 48)"
    unfolding eq by (simp add: abs_mult)
  also have "\<dots> \<le> (1 / 2) * (1 / 8)"
    by (intro mult_mono round_even_err u) simp_all
  finally show ?thesis by simp
qed

lemma binary32_exact_int:
  assumes "0 \<le> c" "c < 2 ^ 24"
  shows "binary32 (of_int c) = of_int c"
proof (cases "c = 0")
  case True
  then show ?thesis by (simp add: binary32_def round_even_def)
next
  case False
  let ?q = "rat_of_int c"
  let ?n = "binade ?q"
  from False assms have c1: "1 \<le> c" by simp
  then have "1 \<le> ?q" by simp
  then have "1 * 1 \<le> ?q * 2 ^ 24" by (intro mult_mono) simp_all
  then have q1: "1 \<le> ?q * 2 ^ 24" by simp
  have "?q < 2 ^ 24" using assms(2) by (metis of_int_less_iff of_int_numeral of_int_power)
  then have "?q * 2 ^ 24 < 2 ^ 24 * 2 ^ 24" by simp
  then have "?q * 2 ^ 24 < 2 ^ 48" by simp
  then have n48: "?n \<le> 48" using assms(1) by (intro binade_le) simp_all
  then have "(2::rat) ^ 48 = 2 ^ (48 - ?n) * 2 ^ ?n"
    by (simp flip: power_add)
  then have "?q * 2 ^ 48 / 2 ^ ?n = ?q * (2 ^ (48 - ?n) * 2 ^ ?n) / 2 ^ ?n" by (simp only:)
  also have "\<dots> = of_int (c * 2 ^ (48 - ?n))" by simp
  finally have x: "?q * 2 ^ 48 / 2 ^ ?n = of_int (c * 2 ^ (48 - ?n))" .
  have "binary32 ?q = of_int (c * 2 ^ (48 - ?n)) * 2 ^ ?n / 2 ^ 48"
    unfolding binary32_def x round_even_of_int ..
  also have "\<dots> = ?q * (2 ^ (48 - ?n) * 2 ^ ?n) / 2 ^ 48" by simp
  also have "\<dots> = ?q" using n48 by (simp flip: power_add)
  finally show ?thesis .
qed

lemma binary32_ge:
  assumes m: "0 < m" "m < 2 ^ 24" and le: "of_int m * 2 ^ e \<le> q"
  shows "of_int m * 2 ^ e \<le> binary32 q"
proof -
  let ?v = "rat_of_int m * 2 ^ e"
  let ?n = "binade q"
  let ?x = "q * 2 ^ 48 / 2 ^ ?n"
  have m1: "1 \<le> rat_of_int m" using m(1) by simp
  have "1 * 1 \<le> ?v" using m1 by (intro mult_mono) simp_all
  with le have q1: "1 \<le> q" by simp
  then have "1 * 1 \<le> q * 2 ^ 24" by (intro mult_mono) simp_all
  then have q24: "1 \<le> q * 2 ^ 24" by simp
  note b = binade_bounds [OF q24]
  show ?thesis
  proof (cases "?n \<le> e + 48")
    case True
    then have p: "(2::rat) ^ (e + 48) = 2 ^ (e + 48 - ?n) * 2 ^ ?n"
      by (simp flip: power_add)
    have "?v * 2 ^ 48 / 2 ^ ?n = rat_of_int m * 2 ^ (e + 48) / 2 ^ ?n"
      by (simp add: power_add)
    also have "\<dots> = of_int (m * 2 ^ (e + 48 - ?n))" unfolding p by simp
    finally have vz: "?v * 2 ^ 48 / 2 ^ ?n = of_int (m * 2 ^ (e + 48 - ?n))" .
    have "?v * 2 ^ 48 / 2 ^ ?n \<le> ?x"
      using le by (simp add: divide_right_mono)
    then have "of_int (m * 2 ^ (e + 48 - ?n)) \<le> ?x" unfolding vz .
    then have "m * 2 ^ (e + 48 - ?n) \<le> round_even ?x" by (rule round_even_ge_int)
    then have "rat_of_int (m * 2 ^ (e + 48 - ?n)) \<le> of_int (round_even ?x)"
      by (simp only: of_int_le_iff)
    then have "rat_of_int (m * 2 ^ (e + 48 - ?n)) * (2 ^ ?n / 2 ^ 48)
               \<le> of_int (round_even ?x) * (2 ^ ?n / 2 ^ 48)"
      by (intro mult_right_mono) simp_all
    moreover have "rat_of_int (m * 2 ^ (e + 48 - ?n)) * (2 ^ ?n / 2 ^ 48) = ?v"
    proof -
      have "rat_of_int (m * 2 ^ (e + 48 - ?n)) * (2 ^ ?n / 2 ^ 48)
            = rat_of_int m * (2 ^ (e + 48 - ?n) * 2 ^ ?n) / 2 ^ 48" by simp
      also have "\<dots> = rat_of_int m * 2 ^ (e + 48) / 2 ^ 48" unfolding p ..
      also have "\<dots> = ?v" by (simp add: power_add)
      finally show ?thesis .
    qed
    ultimately show ?thesis unfolding binary32_alt by (simp only:)
  next
    case False
    then have n: "e + 49 \<le> ?n" by simp
    then have p: "(2::rat) ^ ?n = 2 ^ (?n - 1) * 2" 
      by (metis b(3) power_minus_mult)
    have "(2::rat) ^ (?n - 1) \<le> q * 2 ^ 24" by (rule b(1))
    then have "(2::rat) ^ (?n - 1) * 2 ^ 24 \<le> q * 2 ^ 24 * 2 ^ 24" by simp
    then have "(2::rat) ^ (?n - 1) * 2 ^ 24 \<le> q * 2 ^ 48" by simp
    then have "(2::rat) ^ (?n - 1) * 2 ^ 24 / 2 ^ ?n \<le> ?x" by (simp add: divide_right_mono)
    moreover have "(2::rat) ^ (?n - 1) * 2 ^ 24 / 2 ^ ?n = of_int (2 ^ 23)"
      unfolding p by simp
    ultimately have "of_int (2 ^ 23) \<le> ?x" by simp
    then have "2 ^ 23 \<le> round_even ?x" by (rule round_even_ge_int)
    then have "rat_of_int (2 ^ 23) \<le> of_int (round_even ?x)" by (simp only: of_int_le_iff)
    then have "rat_of_int (2 ^ 23) * (2 ^ ?n / 2 ^ 48)
               \<le> of_int (round_even ?x) * (2 ^ ?n / 2 ^ 48)"
      by (intro mult_right_mono) simp_all
    then have low: "2 ^ ?n / 2 ^ 25 \<le> binary32 q" by (simp add: binary32_def)
    have "rat_of_int m < 2 ^ 24" using m(2) by (metis of_int_less_iff of_int_numeral of_int_power)
    then have "?v < 2 ^ 24 * 2 ^ e" by simp
    also have "\<dots> = 2 ^ (e + 49) / 2 ^ 25" by (simp add: power_add)
    also have "\<dots> \<le> 2 ^ ?n / 2 ^ 25"
      using n by (simp add: divide_right_mono power_increasing)
    finally show ?thesis using low by simp
  qed
qed

lemma trunc_of_int: "trunc (of_int z) = z"
  by (simp add: trunc_def)

lemma hash_func_nonpos: "c \<le> 0 \<Longrightarrow> hash_func c \<le> 0"
proof -
  assume "c \<le> 0"
  then have "rat_of_int c \<le> 0" by simp
  then have "binary32 (of_int c) \<le> 0" by (rule binary32_nonpos)
  then have "binary32 (of_int c) / of_int DIV \<le> 0"
    by (simp add: DIV_def divide_nonpos_pos)
  then have "binary32 (binary32 (of_int c) / of_int DIV) \<le> 0" by (rule binary32_nonpos)
  then show ?thesis 
    by (auto simp: hash_func_def trunc_def ceiling_le_iff)
qed


lemma hash_func_exact:
  assumes "0 \<le> c" "c < 2 ^ 24"
  shows "hash_func c = c div 10"
proof -
  let ?k = "c div 10"
  let ?r = "c mod 10"
  let ?q = "rat_of_int c / 10"
  have c: "binary32 (of_int c) = of_int c" using assms by (rule binary32_exact_int)
  have h: "hash_func c = trunc (binary32 ?q)" by (simp add: hash_func_def c DIV_def)
  have k0: "0 \<le> ?k" using assms(1) by simp
  have kc: "?k \<le> c" using assms(1) by simp
  have decomp: "c = 10 * ?k + ?r" by simp
  have q: "?q = of_int ?k + of_int ?r / 10"
  proof -
    have "rat_of_int (10 * ?k + ?r) = of_int c" by (simp only: mult_div_mod_eq)
    then have "10 * rat_of_int ?k + of_int ?r = of_int c"
      by (simp only: of_int_add of_int_mult of_int_numeral)
    then show ?thesis by linarith
  qed
  show ?thesis
  proof (cases "?r = 0")
    case True
    then have "?q = of_int ?k" using q by simp
    moreover have "binary32 (of_int ?k) = of_int ?k"
      using k0 kc assms(2) by (intro binary32_exact_int) simp_all
    ultimately show ?thesis using h by (simp add: trunc_of_int)
  next
    case False
    have "0 \<le> ?r" "?r < 10" by simp_all
    with False have r: "1 \<le> ?r" "?r \<le> 9" by linarith+
    then have rr: "1 \<le> rat_of_int ?r" "rat_of_int ?r \<le> 9" by linarith+
    have q0: "0 \<le> ?q" using assms(1) by simp
    have "rat_of_int c < 2 ^ 24" using assms(2) by (metis of_int_less_iff of_int_numeral of_int_power)
    then have "?q < 2 ^ 21" by simp
    with q0 have err: "\<bar>binary32 ?q - ?q\<bar> \<le> 1 / 16" by (rule binary32_err)
    define y where "y = binary32 ?q"
    have err': "\<bar>y - ?q\<bar> \<le> 1 / 16" using err by (simp only: y_def)
    have qlo: "of_int ?k + 1 / 10 \<le> ?q" and qhi: "?q \<le> of_int ?k + 9 / 10"
      using q rr by linarith+
    have lo: "of_int ?k \<le> y" using err' qlo by linarith
    have hi: "y < of_int ?k + 1" using err' qhi by linarith
    have "0 \<le> y" unfolding y_def using q0 by (rule binary32_nonneg)
    then have "trunc y = \<lfloor>y\<rfloor>" by (simp add: trunc_def)
    also have "\<dots> = ?k" using lo hi by (simp add: floor_unique)
    finally have "trunc (binary32 ?q) = ?k" by (simp only: y_def)
    then show ?thesis using h by simp
  qed
qed

lemma hash_func_lower:
  assumes m: "0 < m" "10 * m < 2 ^ 24" and c: "10 * (m * 2 ^ e) \<le> c"
  shows "m * 2 ^ e \<le> hash_func c"
proof -
  have "rat_of_int (10 * (m * 2 ^ e)) \<le> of_int c" using c by (simp only: of_int_le_iff)
  then have "rat_of_int (10 * m) * 2 ^ e \<le> of_int c" by (simp add: mult.assoc)
  then have "rat_of_int (10 * m) * 2 ^ e \<le> binary32 (of_int c)"
    using m by (intro binary32_ge) simp_all
  then have "rat_of_int m * 2 ^ e \<le> binary32 (of_int c) / of_int DIV"
    by (simp add: DIV_def field_simps)
  then have le: "rat_of_int m * 2 ^ e \<le> binary32 (binary32 (of_int c) / of_int DIV)"
    using m by (intro binary32_ge) simp_all
  have "0 \<le> rat_of_int m * 2 ^ e" using m(1) by simp
  with le have "0 \<le> binary32 (binary32 (of_int c) / of_int DIV)" by simp
  then have "hash_func c = \<lfloor>binary32 (binary32 (of_int c) / of_int DIV)\<rfloor>"
    by (simp add: hash_func_def trunc_def)
  moreover have "rat_of_int (m * 2 ^ e) \<le> binary32 (binary32 (of_int c) / of_int DIV)"
    using le by simp
  ultimately show ?thesis by (simp only: le_floor_iff)
qed

lemma hash_func_MAX: "hash_func MAX_coord = 100"
  by (simp add: MAX_coord_def hash_func_exact)

lemma hash_func_above: "MAX_coord \<le> c \<Longrightarrow> 100 \<le> hash_func c"
  using hash_func_lower [of 100 0 c] by (simp add: MAX_coord_def)

lemma hash_func_pow2: "10 * 2 ^ e \<le> c \<Longrightarrow> 2 ^ e \<le> hash_func c"
  using hash_func_lower [of 1 e c] by simp









section \<open>Buckets and scans\<close>

lemma top_index: "MAX_coord div DIV = 100"
  by (simp add: MAX_coord_def DIV_def)

lemma wf_grid_empty: "wf_grid empty_grid"
  by (simp add: wf_grid_def empty_grid_def)

lemma cell_in_range:
  assumes "wf_grid G" "0 \<le> x" "x \<le> 100" "0 \<le> y" "y \<le> 100"
  shows "cell G x y = Inr (G ! nat x ! nat y)"
proof -
  from assms have len: "length G = 101" and x: "nat x < length G"
    by (simp_all add: wf_grid_def top_index)
  then have "G ! nat x \<in> set G" by simp
  with assms(1) have "length (G ! nat x) = 101" by (simp add: wf_grid_def top_index)
  with assms len show ?thesis by (simp add: cell_def subscript_def)
qed

lemma cell_points_in_range:
  assumes "wf_grid G" "0 \<le> x" "x \<le> 100" "0 \<le> y" "y \<le> 100"
  shows "cell_points G x y = G ! nat x ! nat y"
  by (simp add: cell_points_def cell_in_range [OF assms])

lemma clamp_index_range: "0 \<le> clamp_index i \<and> clamp_index i \<le> 100"
  by (simp add: clamp_index_def top_index)

lemma clamp_index_idem: "clamp_index (clamp_index i) = clamp_index i"
  by (simp add: clamp_index_def top_index)

lemma scan_append: "scan d r (xs @ ys) b = scan d r ys (scan d r xs b)"
  by (induction xs arbitrary: b) simp_all

lemma scan_columns_rows:
  assumes "wf_grid G" "0 \<le> minx" "curx \<le> 100"
  shows "scan_columns d G r curx minx maxy miny b =
         Some (Inr (scan d r
           (concat (map (\<lambda>x. cell_points G x (clamp_index maxy) @ cell_points G x (clamp_index miny))
                        (rev [minx .. curx]))) b))"
  using assms(3)
proof (induction "nat (curx + 1 - minx)" arbitrary: curx maxy miny b)
  case 0
  then have "\<not> minx \<le> curx" by simp
  then show ?case by (subst scan_columns.simps) simp
next
  case (Suc n)
  then have ge: "minx \<le> curx" by linarith
  with assms(2) Suc.prems have cx: "0 \<le> curx" "curx \<le> 100" by simp_all
  let ?ty = "clamp_index maxy" and ?bo = "clamp_index miny"
  have rt: "(let m = (if maxy < 0 then 0 else maxy)
             in if m > hash_func MAX_coord then hash_func MAX_coord else m) = ?ty"
    by (simp add: clamp_index_def top_index hash_func_MAX Let_def)
  have rb: "(let m = (if miny < 0 then 0 else miny)
             in if m > hash_func MAX_coord then hash_func MAX_coord else m) = ?bo"
    by (simp add: clamp_index_def top_index hash_func_MAX Let_def)
  have ct: "cell G curx ?ty = Inr (cell_points G curx ?ty)"
    using assms(1) cx clamp_index_range [of maxy]
    by (simp add: cell_in_range cell_points_in_range)
  have cb: "cell G curx ?bo = Inr (cell_points G curx ?bo)"
    using assms(1) cx clamp_index_range [of miny]
    by (simp add: cell_in_range cell_points_in_range)
  have n: "n = nat (curx - 1 + 1 - minx)" using Suc.hyps(2) by linarith
  have IH: "scan_columns d G r (curx - 1) minx ?ty ?bo b' =
         Some (Inr (scan d r
           (concat (map (\<lambda>x. cell_points G x ?ty @ cell_points G x ?bo)
                        (rev [minx .. curx - 1]))) b'))" for b'
    using Suc.hyps(1) [OF n, of ?ty ?bo b'] cx by (simp add: clamp_index_idem)
  have step: "scan_columns d G r curx minx maxy miny b =
        scan_columns d G r (curx - 1) minx ?ty ?bo
          (scan d r (cell_points G curx ?bo) (scan d r (cell_points G curx ?ty) b))"
    apply (subst scan_columns.simps)
    using ge cx rt rb ct cb
    apply (simp add: Let_def hash_func_MAX)
    done
  have up: "rev [minx .. curx] = curx # rev [minx .. curx - 1]"
    using ge by (simp add: upto_rec2)
  show ?case
    unfolding step IH up by (simp add: scan_append)
qed

lemma concat_pairs:
  "concat (concat (map (\<lambda>x. [f x, g x]) xs)) = concat (map (\<lambda>x. f x @ g x) xs)"
  by (induction xs) simp_all

lemma find_nearest_scan:
  assumes "wf_grid G"
  shows "find_nearest d G maxx maxy minx miny r b =
         Some (Inr (scan d r (ring_points G maxx maxy minx miny) b))"
proof -
  have c1: "clamp_index (if maxy > 100 then 100 else maxy) = clamp_index maxy"
    by (simp add: clamp_index_def top_index)
  have c2: "clamp_index (if miny < 0 then 0 else miny) = clamp_index miny"
    by (simp add: clamp_index_def top_index)
  have pts: "ring_points G maxx maxy minx miny =
     concat (map (\<lambda>x. cell_points G x (clamp_index maxy) @ cell_points G x (clamp_index miny))
                        (rev [max minx 0 .. min maxx 100]))"
    by (simp add: ring_points_def perimeter_rows_def top_index map_concat comp_def concat_pairs)
  have mx: "(if minx < 0 then 0 else minx) = max minx 0" by simp
  have Mx: "(if maxx > 100 then 100 else maxx) = min maxx 100" by simp
  show ?thesis
    unfolding find_nearest_def Let_def hash_func_MAX mx Mx pts
    by (subst scan_columns_rows [OF assms]) (simp_all add: c1 c2)
qed

section \<open>The loop of the query\<close>

lemma rings_left_zero:
  "rings_left maxx maxy minx miny = 0 \<longleftrightarrow>
     hash_func MAX_coord < maxy \<and> hash_func MAX_coord < maxx \<and> minx < 0 \<and> miny < 0"
  by (auto simp: rings_left_def top_index hash_func_MAX)

lemma rings_left_grow:
  "rings_left maxx maxy minx miny \<noteq> 0 \<Longrightarrow>
   Suc (rings_left (maxx + 1) (maxy + 1) (minx - 1) (miny - 1)) = rings_left maxx maxy minx miny"
  by (auto simp: rings_left_def top_index)

lemma scan_fstset: "fstset b \<Longrightarrow> fstset (scan d r pts b)"
  by (induction pts arbitrary: b) (simp_all add: visit_def)

lemma scan_unset: "\<not> fstset (scan d r pts b) \<Longrightarrow> pts = []"
proof (cases pts)
  case Nil
  then show ?thesis by simp
next
  case (Cons i rest)
  assume nf: "\<not> fstset (scan d r pts b)"
  have "fstset (visit d r i b)" by (simp add: visit_def)
  then have "fstset (scan d r pts b)" unfolding Cons by (simp add: scan_fstset)
  with nf show ?thesis by simp
qed

lemma while_loop_found:
  "fstset b \<Longrightarrow> while_loop d G r maxx maxy minx miny b n = Some (Inr (nearest b, n))"
  by (subst while_loop.simps) simp

lemma while_loop_exhausted:
  "\<not> fstset b \<Longrightarrow> rings_left maxx maxy minx miny = 0 \<Longrightarrow>
   while_loop d G r maxx maxy minx miny b n = Some (Inr (Point (- 1) (- 1), Suc n))"
  by (subst while_loop.simps) (simp add: rings_left_zero)

lemma while_loop_step:
  assumes "wf_grid G" "\<not> fstset b" "rings_left maxx maxy minx miny \<noteq> 0"
  shows "while_loop d G r maxx maxy minx miny b n =
         (let b1 = scan d r (ring_points G maxx maxy minx miny) b
          in if fstset b1
             then Some (Inr (nearest (scan d r (ring_points G (maxx + 1) (maxy + 1) (minx - 1)
                                       (miny - 1)) b1), Suc n))
             else while_loop d G r (maxx + 1) (maxy + 1) (minx - 1) (miny - 1) b1 (Suc n))"
proof -
  from assms(3) have ne: "\<not> (hash_func MAX_coord < maxy \<and> hash_func MAX_coord < maxx
                               \<and> minx < 0 \<and> miny < 0)"
    by (simp add: rings_left_zero)
  show ?thesis
    by (subst while_loop.simps)
       (simp only: assms(2) ne find_nearest_scan [OF assms(1)] Let_def while_loop_found
                   scan_fstset not_False_eq_True if_True if_False option.case sum.case
             cong: if_cong)
qed

lemma while_loop_bound:
  assumes "wf_grid G"
  shows "\<exists>p n'. while_loop d G r maxx maxy minx miny b n = Some (Inr (p, n'))
                \<and> n' \<le> Suc (n + rings_left maxx maxy minx miny)"
proof (induction "rings_left maxx maxy minx miny" arbitrary: maxx maxy minx miny b n)
  case 0
  then show ?case
    by (cases "fstset b") (simp_all add: while_loop_found while_loop_exhausted)
next
  case (Suc k)
  show ?case
  proof (cases "fstset b")
    case True
    then show ?thesis by (simp add: while_loop_found)
  next
    case False
    from Suc.hyps(2) have nz: "rings_left maxx maxy minx miny \<noteq> 0" by simp
    from rings_left_grow [OF nz] Suc.hyps(2)
    have k: "k = rings_left (maxx + 1) (maxy + 1) (minx - 1) (miny - 1)" by simp
    let ?b1 = "scan d r (ring_points G maxx maxy minx miny) b"
    show ?thesis
    proof (cases "fstset ?b1")
      case True
      then show ?thesis
        using Suc.hyps(2) by (simp add: while_loop_step [OF assms False nz] Let_def)
    next
      case nf: False
      from Suc.hyps(1) [OF k, of ?b1 "Suc n"] obtain p n' where
        "while_loop d G r (maxx + 1) (maxy + 1) (minx - 1) (miny - 1) ?b1 (Suc n) = Some (Inr (p, n'))"
        "n' \<le> Suc (Suc n + k)" using k by auto
      then show ?thesis
        using Suc.hyps(2) nf by (simp add: while_loop_step [OF assms False nz] Let_def)
    qed
  qed
qed

lemma while_loop_nothing:
  assumes "wf_grid G" "\<not> fstset b"
    and "\<And>k::nat. ring_points G (maxx + int k) (maxy + int k) (minx - int k) (miny - int k) = []"
  shows "while_loop d G r maxx maxy minx miny b n =
         Some (Inr (Point (- 1) (- 1), Suc (n + rings_left maxx maxy minx miny)))"
  using assms(3)
proof (induction "rings_left maxx maxy minx miny" arbitrary: maxx maxy minx miny n)
  case 0
  then show ?case using assms(2) by (simp add: while_loop_exhausted)
next
  case (Suc j)
  from Suc.hyps(2) have nz: "rings_left maxx maxy minx miny \<noteq> 0" by simp
  from rings_left_grow [OF nz] Suc.hyps(2)
  have j: "j = rings_left (maxx + 1) (maxy + 1) (minx - 1) (miny - 1)" by simp
  have here: "ring_points G maxx maxy minx miny = []" using Suc.prems [of 0] by simp
  have later: "ring_points G (maxx + 1 + int k) (maxy + 1 + int k) (minx - 1 - int k)
                 (miny - 1 - int k) = []" for k
    using Suc.prems [of "Suc k"] by (simp add: algebra_simps)
  have "while_loop d G r (maxx + 1) (maxy + 1) (minx - 1) (miny - 1) b (Suc n) =
        Some (Inr (Point (- 1) (- 1), Suc (Suc n + j)))"
    using Suc.hyps(1) [OF j later] j by simp
  then show ?case
    using Suc.hyps(2) assms(2)
    by (simp add: while_loop_step [OF assms(1,2) nz] here)
qed

section \<open>Insertion\<close>

lemma clamped_hash:
  "(if hash_func MAX_coord < (if hash_func c < 0 then 0 else hash_func c)
    then hash_func MAX_coord else (if hash_func c < 0 then 0 else hash_func c))
   = clamp_index (c div DIV)"
proof -
  consider "c < 0" | "0 \<le> c" "c < 2 ^ 24" | "2 ^ 24 \<le> c" by linarith
  then show ?thesis
  proof cases
    case 1
    then have "hash_func c \<le> 0" by (simp add: hash_func_nonpos)
    moreover from 1 have "c div 10 < 0" by simp
    ultimately show ?thesis
      unfolding hash_func_MAX clamp_index_def top_index by (simp add: DIV_def)
  next
    case 2
    then have "hash_func c = c div 10" by (rule hash_func_exact)
    moreover from 2 have "0 \<le> c div 10" by simp
    ultimately show ?thesis
      unfolding hash_func_MAX clamp_index_def top_index by (simp add: DIV_def)
  next
    case 3
    then have "MAX_coord \<le> c" by (simp add: MAX_coord_def)
    then have "100 \<le> hash_func c" by (rule hash_func_above)
    moreover from 3 have "100 \<le> c div 10" by simp
    ultimately show ?thesis
      unfolding hash_func_MAX clamp_index_def top_index by (simp add: DIV_def)
  qed
qed

lemma wf_grid_update:
  assumes "wf_grid G" "length v = length (G ! i)"
  shows "wf_grid (G[i := v])"
proof (cases "i < length G")
  case True
  then have "G ! i \<in> set G" by simp
  with assms have v: "length v = nat (MAX_coord div DIV + 1)" by (simp add: wf_grid_def)
  have "set (G[i := v]) \<subseteq> insert v (set G)" by (rule set_update_subset_insert)
  with assms(1) v show ?thesis by (auto simp: wf_grid_def)
next
  case False
  then show ?thesis using assms(1) by (simp add: list_update_beyond)
qed

lemma cell_points_update:
  assumes "wf_grid G" "i < 101" "j < 101"
  shows "cell_points (G[i := (G ! i)[j := v]]) x y =
         (if x = int i \<and> y = int j then v else cell_points G x y)"
proof -
  from assms have len: "length G = 101" by (simp add: wf_grid_def top_index)
  with assms have "G ! i \<in> set G" by simp
  with assms(1) have col: "length (G ! i) = 101" by (simp add: wf_grid_def top_index)
  show ?thesis
  proof (cases "0 \<le> x \<and> x \<le> 100 \<and> 0 \<le> y \<and> y \<le> 100")
    case True
    then have x: "nat x < 101" and y: "nat y < 101" by linarith+
    have wf': "wf_grid (G[i := (G ! i)[j := v]])"
      using assms(1) by (rule wf_grid_update) simp
    have "cell_points (G[i := (G ! i)[j := v]]) x y = G[i := (G ! i)[j := v]] ! nat x ! nat y"
      using wf' True by (simp add: cell_points_in_range)
    also have "\<dots> = (if nat x = i \<and> nat y = j then v else G ! nat x ! nat y)"
      using x y assms(2,3) len col by (simp add: nth_list_update)
    also have "\<dots> = (if x = int i \<and> y = int j then v else cell_points G x y)"
      using True assms(1) by (auto simp: cell_points_in_range)
    finally show ?thesis .
  next
    case False
    then have out: "\<not> (x = int i \<and> y = int j)" using assms(2,3) by auto
    have outside: "cell_points G' x y = []" if "wf_grid G'" for G'
      using False that by (auto simp: cell_points_def cell_def subscript_def wf_grid_def top_index)
    have "wf_grid (G[i := (G ! i)[j := v]])"
      using assms(1) by (rule wf_grid_update) simp
    then have "cell_points (G[i := (G ! i)[j := v]]) x y = []" by (rule outside)
    moreover have "cell_points G x y = []" using assms(1) by (rule outside)
    ultimately show ?thesis using out by (simp only: if_False)
  qed
qed

lemma insert_point_wf:
  assumes "wf_grid G"
  shows "insert_point G p =
         Inr (G[nat (fst (spec_cell p)) :=
                 (G ! nat (fst (spec_cell p)))[nat (snd (spec_cell p)) :=
                     cell_points G (fst (spec_cell p)) (snd (spec_cell p)) @ [p]]])"
proof -
  let ?x = "clamp_index (get p 0 div DIV)" and ?y = "clamp_index (get p 1 div DIV)"
  have r: "0 \<le> ?x" "?x \<le> 100" "0 \<le> ?y" "?y \<le> 100"
    using clamp_index_range by simp_all
  from assms have len: "length G = 101" by (simp add: wf_grid_def top_index)
  with r have "G ! nat ?x \<in> set G" by simp
  with assms have col: "length (G ! nat ?x) = 101" by (simp add: wf_grid_def top_index)
  have sx: "subscript G ?x = Inr (G ! nat ?x)" using r len by (simp add: subscript_def)
  have sy: "subscript (G ! nat ?x) ?y = Inr (G ! nat ?x ! nat ?y)"
    using r col by (simp add: subscript_def)
  have cp: "cell_points G ?x ?y = G ! nat ?x ! nat ?y"
    using assms r by (simp add: cell_points_in_range)
  show ?thesis
    unfolding insert_point_def Let_def clamped_hash
    by (simp only: sx sy cp spec_cell_def fst_conv snd_conv sum.case)
qed

lemma insert_point_effect:
  assumes "wf_grid G"
  shows "\<exists>G'. insert_point G p = Inr G' \<and> wf_grid G' \<and>
           (\<forall>x y. cell_points G' x y =
              (if (x, y) = spec_cell p then cell_points G x y @ [p] else cell_points G x y))"
proof -
  let ?x = "fst (spec_cell p)" and ?y = "snd (spec_cell p)"
  let ?G' = "G[nat ?x := (G ! nat ?x)[nat ?y := cell_points G ?x ?y @ [p]]]"
  have r: "0 \<le> ?x" "?x \<le> 100" "0 \<le> ?y" "?y \<le> 100"
    using clamp_index_range by (simp_all add: spec_cell_def)
  have "insert_point G p = Inr ?G'" using assms by (rule insert_point_wf)
  moreover have "wf_grid ?G'" using assms by (rule wf_grid_update) simp
  moreover have "cell_points ?G' x y =
              (if (x, y) = spec_cell p then cell_points G x y @ [p] else cell_points G x y)" for x y
  proof -
    have "cell_points ?G' x y =
          (if x = int (nat ?x) \<and> y = int (nat ?y) then cell_points G ?x ?y @ [p] else cell_points G x y)"
      using assms r by (intro cell_points_update) simp_all
    also have "\<dots> = (if (x, y) = spec_cell p then cell_points G x y @ [p] else cell_points G x y)"
      using r by (auto simp: prod_eq_iff)
    finally show ?thesis .
  qed
  ultimately show ?thesis by blast
qed

lemma inserts_effect:
  assumes "wf_grid G"
  shows "\<exists>G'. inserts G ps = Inr G' \<and> wf_grid G' \<and>
           (\<forall>x y. cell_points G' x y = cell_points G x y @ filter (\<lambda>p. spec_cell p = (x, y)) ps)"
  using assms
proof (induction ps arbitrary: G)
  case Nil
  then show ?case by simp
next
  case (Cons p ps)
  from insert_point_effect [OF Cons.prems, of p] obtain G1 where
    G1: "insert_point G p = Inr G1" "wf_grid G1"
    "\<And>x y. cell_points G1 x y =
        (if (x, y) = spec_cell p then cell_points G x y @ [p] else cell_points G x y)"
    by blast
  from Cons.IH [OF G1(2)] obtain G' where
    G': "inserts G1 ps = Inr G'" "wf_grid G'"
    "\<And>x y. cell_points G' x y = cell_points G1 x y @ filter (\<lambda>p. spec_cell p = (x, y)) ps"
    by blast
  have "inserts G (p # ps) = Inr G'" using G1(1) G'(1) by simp
  moreover have "cell_points G' x y =
      cell_points G x y @ filter (\<lambda>q. spec_cell q = (x, y)) (p # ps)" for x y
    by (auto simp: G'(3) G1(3))
  ultimately show ?case using G'(2) by blast
qed

lemma cell_points_empty: "cell_points empty_grid x y = []"
  by (auto simp: cell_points_def cell_def subscript_def empty_grid_def top_index)

section \<open>The result of a scan\<close>

lemma visit_first:
  "\<not> fstset b \<Longrightarrow> visit d r i b = \<lparr>nearest = i, distv = d i r, fstset = True\<rparr>"
  by (simp add: visit_def)

lemma visit_keeps_best:
  assumes "fstset b" "nearest b \<in> S" "distv b = d (nearest b) r" "\<forall>p \<in> S. distv b \<le> d p r"
  shows "fstset (visit d r i b) \<and> nearest (visit d r i b) \<in> insert i S
         \<and> distv (visit d r i b) = d (nearest (visit d r i b)) r
         \<and> (\<forall>p \<in> insert i S. distv (visit d r i b) \<le> d p r)"
proof (cases "d i r < distv b")
  case True
  then have "\<forall>p \<in> S. d i r \<le> d p r" using assms(4) by fastforce
  then show ?thesis using True assms(1) by (simp add: visit_def)
next
  case False
  then show ?thesis using assms by (simp add: visit_def)
qed

lemma scan_keeps_best:
  assumes "fstset b" "nearest b \<in> S" "distv b = d (nearest b) r" "\<forall>p \<in> S. distv b \<le> d p r"
  shows "fstset (scan d r pts b) \<and> nearest (scan d r pts b) \<in> S \<union> set pts
         \<and> distv (scan d r pts b) = d (nearest (scan d r pts b)) r
         \<and> (\<forall>p \<in> S \<union> set pts. distv (scan d r pts b) \<le> d p r)"
  using assms
proof (induction pts arbitrary: b S)
  case Nil
  then show ?case by simp
next
  case (Cons i rest)
  from visit_keeps_best [of b S d r i] Cons.prems
  have v: "fstset (visit d r i b)" "nearest (visit d r i b) \<in> insert i S"
    "distv (visit d r i b) = d (nearest (visit d r i b)) r"
    "\<forall>p \<in> insert i S. distv (visit d r i b) \<le> d p r"
    by blast+
  have "fstset (scan d r rest (visit d r i b))
        \<and> nearest (scan d r rest (visit d r i b)) \<in> insert i S \<union> set rest
        \<and> distv (scan d r rest (visit d r i b)) = d (nearest (scan d r rest (visit d r i b))) r
        \<and> (\<forall>p \<in> insert i S \<union> set rest. distv (scan d r rest (visit d r i b)) \<le> d p r)"
    using v by (rule Cons.IH)
  then show ?case by auto
qed

lemma scan_best:
  assumes "\<not> fstset b" "pts \<noteq> []"
  shows "fstset (scan d r pts b) \<and> nearest (scan d r pts b) \<in> set pts
         \<and> distv (scan d r pts b) = d (nearest (scan d r pts b)) r
         \<and> (\<forall>p \<in> set pts. distv (scan d r pts b) \<le> d p r)"
proof (cases pts)
  case Nil
  with assms(2) show ?thesis by simp
next
  case (Cons i rest)
  let ?v = "visit d r i b"
  have v: "?v = \<lparr>nearest = i, distv = d i r, fstset = True\<rparr>"
    using assms(1) by (rule visit_first)
  have "fstset (scan d r rest ?v) \<and> nearest (scan d r rest ?v) \<in> {i} \<union> set rest
         \<and> distv (scan d r rest ?v) = d (nearest (scan d r rest ?v)) r
         \<and> (\<forall>p \<in> {i} \<union> set rest. distv (scan d r rest ?v) \<le> d p r)"
    by (rule scan_keeps_best) (simp_all add: v)
  then show ?thesis unfolding Cons by auto
qed

section \<open>The buckets of a window\<close>

lemma set_perimeter_rows:
  "set (perimeter_rows maxx maxy minx miny) =
     {(x, y). max minx 0 \<le> x \<and> x \<le> min maxx (MAX_coord div DIV)
              \<and> (y = clamp_index maxy \<or> y = clamp_index miny)}"
  by (auto simp: perimeter_rows_def)

lemma ring_points_rows:
  "ring_points G maxx maxy minx miny =
     concat (map (\<lambda>x. cell_points G x (clamp_index maxy) @ cell_points G x (clamp_index miny))
                 (rev [max minx 0 .. min maxx (MAX_coord div DIV)]))"
  by (simp add: ring_points_def perimeter_rows_def map_concat comp_def concat_pairs)

lemma ring_points_no_columns:
  "min maxx (MAX_coord div DIV) < max minx 0 \<Longrightarrow> ring_points G maxx maxy minx miny = []"
  by (simp add: ring_points_rows)

lemma ring_points_nil:
  assumes "\<And>x y. (x, y) \<in> set (perimeter_rows maxx maxy minx miny) \<Longrightarrow> cell_points G x y = []"
  shows "ring_points G maxx maxy minx miny = []"
  using assms by (auto simp: ring_points_def)

lemma ring_points_empty_grid: "ring_points empty_grid maxx maxy minx miny = []"
  by (rule ring_points_nil) (rule cell_points_empty)

section \<open>Grids with one point\<close>

lemma wf_one_point_grid: "wf_grid (one_point_grid i j p)"
  unfolding one_point_grid_def using wf_grid_empty by (rule wf_grid_update) simp

lemma cell_points_one_point_grid:
  assumes "i < 101" "j < 101"
  shows "cell_points (one_point_grid i j p) x y = (if x = int i \<and> y = int j then [p] else [])"
  unfolding one_point_grid_def
  using cell_points_update [OF wf_grid_empty assms, of "[p]" x y]
  by (simp add: cell_points_empty)

lemma insert_point_empty_grid:
  assumes "spec_cell p = (int i, int j)"
  shows "insert_point empty_grid p = Inr (one_point_grid i j p)"
  using insert_point_wf [OF wf_grid_empty, of p] cell_points_empty
  by (simp add: assms one_point_grid_def)

section \<open>The query returns\<close>

lemma nearest_neighbor_run_bound:
  assumes "wf_grid G"
  shows "\<exists>p n. nearest_neighbor_run d G r = Some (Inr (p, n))
               \<and> n \<le> Suc (rings_left (hash_func (get r 0)) (hash_func (get r 1))
                                      (hash_func (get r 0)) (hash_func (get r 1)))"
  using while_loop_bound [OF assms, of d r "hash_func (get r 0)" "hash_func (get r 1)"
          "hash_func (get r 0)" "hash_func (get r 1)"
          "\<lparr>nearest = Point 0 0, distv = DBL_MAX, fstset = False\<rparr>" 0]
  by (simp add: nearest_neighbor_run_def Let_def)

lemma nearest_neighbor_run_nothing:
  assumes "wf_grid G"
    and "\<And>k::nat. ring_points G (hash_func (get r 0) + int k) (hash_func (get r 1) + int k)
                      (hash_func (get r 0) - int k) (hash_func (get r 1) - int k) = []"
  shows "nearest_neighbor_run d G r =
         Some (Inr (Point (- 1) (- 1),
                    Suc (rings_left (hash_func (get r 0)) (hash_func (get r 1))
                                    (hash_func (get r 0)) (hash_func (get r 1)))))"
  unfolding nearest_neighbor_run_def Let_def
  by (subst while_loop_nothing [OF assms(1) _ assms(2)]) simp_all





section \<open>Concrete runs\<close>

lemma spec_cell_Point:
  "spec_cell (Point x y) = (clamp_index (x div 10), clamp_index (y div 10))"
  by (simp add: spec_cell_def get_def DIV_def)


lemma home_row_never_scanned:
  fixes k :: nat
  shows "ring_points (one_point_grid 52 50 p) (50 + int k) (50 + int k) (50 - int k) (50 - int k) = []"
proof (rule ring_points_nil)
  fix x y
  assume "(x, y) \<in> set (perimeter_rows (50 + int k) (50 + int k) (50 - int k) (50 - int k))"
  then have "\<not> (x = 52 \<and> y = 50)"
    by (auto simp: set_perimeter_rows clamp_index_def top_index)
  then show "cell_points (one_point_grid 52 50 p) x y = []"
    by (simp add: cell_points_one_point_grid)
qed


lemma sqrt_50: "distance (Point 5 5) (Point 0 0) = sqrt 50"
  by (simp add: distance_def)

lemma sqrt_400: "distance (Point 5 5) (Point 5 (- 15)) = 20"
proof -
  have "distance (Point 5 5) (Point 5 (- 15)) = sqrt (20 * 20)" by (simp add: distance_def)
  also have "\<dots> = 20" by (simp only: real_sqrt_abs2)
  finally show ?thesis .
qed

lemma find_nearest_no_columns:
  assumes "maxx < 0 \<or> hash_func MAX_coord < minx"
  shows "find_nearest d G maxx maxy minx miny r b = Some (Inr b)"
proof -
  let ?minx = "if minx < 0 then 0 else minx"
  let ?maxx = "if maxx > hash_func MAX_coord then hash_func MAX_coord else maxx"
  from assms have "\<not> ?minx \<le> ?maxx" by (auto simp: hash_func_MAX)
  then have "scan_columns d G r ?maxx ?minx maxy' miny' b = Some (Inr b)" for maxy' miny'
    by (subst scan_columns.simps) (simp only: if_False)
  then show ?thesis by (simp add: find_nearest_def Let_def)
qed

lemma hash_func_505: "hash_func 505 = 50"
  by (simp add: hash_func_exact)

lemma home_row_point_missed:
  "insert_point empty_grid (Point 525 505) = Inr (one_point_grid 52 50 (Point 525 505))
   \<and> nearest_neighbor distance (one_point_grid 52 50 (Point 525 505)) (Point 505 505)
       = Some (Inr (Point (- 1) (- 1)))"
proof -
  let ?G = "one_point_grid 52 50 (Point 525 505)"
  have "spec_cell (Point 525 505) = (int 52, int 50)"
    by (simp add: spec_cell_Point clamp_index_def top_index)
  then have ins: "insert_point empty_grid (Point 525 505) = Inr ?G"
    by (rule insert_point_empty_grid)
  have h: "hash_func 505 = 50" by (simp add: hash_func_exact)
  have "nearest_neighbor_run distance ?G (Point 505 505) =
        Some (Inr (Point (- 1) (- 1), Suc (rings_left 50 50 50 50)))"
    using nearest_neighbor_run_nothing [where G = ?G and r = "Point 505 505" and d = distance]
    by (simp add: get_def h home_row_never_scanned wf_one_point_grid)
  then have "nearest_neighbor distance ?G (Point 505 505) = Some (Inr (Point (- 1) (- 1)))"
    by (simp add: nearest_neighbor_def)
  with ins show ?thesis by simp
qed

lemma farther_point_returned:
  "\<exists>GRID. inserts empty_grid [Point 511 505, Point 505 519] = Inr GRID
     \<and> nearest_neighbor distance GRID (Point 505 505) = Some (Inr (Point 505 519))
     \<and> distance (Point 511 505) (Point 505 505) < distance (Point 505 519) (Point 505 505)"
proof -
  let ?A = "Point 511 505" and ?B = "Point 505 519" and ?r = "Point 505 505"
  let ?b = "\<lparr>nearest = Point 0 0, distv = DBL_MAX, fstset = False\<rparr>"
  from inserts_effect [OF wf_grid_empty, of "[?A, ?B]"] obtain G where
    G: "inserts empty_grid [?A, ?B] = Inr G" "wf_grid G"
       "\<And>x y. cell_points G x y = filter (\<lambda>p. spec_cell p = (x, y)) [?A, ?B]"
    by (auto simp: cell_points_empty)
  have sc: "spec_cell ?A = (51, 50)" "spec_cell ?B = (50, 51)"
    by (simp_all add: spec_cell_Point clamp_index_def top_index)
  have p0: "ring_points G 50 50 50 50 = []"
    by (simp add: ring_points_rows clamp_index_def top_index G(3) sc)
  have p1: "ring_points G 51 51 49 49 = [?B]"
    by (simp add: ring_points_rows clamp_index_def top_index G(3) sc)
  have p2: "ring_points G 52 52 48 48 = []"
    by (simp add: ring_points_rows clamp_index_def top_index G(3) sc)
  have r0: "rings_left 50 50 50 50 \<noteq> 0" and r1: "rings_left 51 51 49 49 \<noteq> 0"
    by (simp_all add: rings_left_def top_index)
  have "while_loop distance G ?r 50 50 50 50 ?b 0 = while_loop distance G ?r 51 51 49 49 ?b (Suc 0)"
    by (simp add: while_loop_step [OF G(2) _ r0] p0)
  also have "\<dots> = Some (Inr (?B, Suc (Suc 0)))"
    by (simp add: while_loop_step [OF G(2) _ r1] p1 p2 visit_def)
  finally have "nearest_neighbor distance G ?r = Some (Inr ?B)"
    by (simp add: nearest_neighbor_def nearest_neighbor_run_def get_def hash_func_505)
  moreover have "distance ?A ?r < distance ?B ?r" by (simp add: distance_def)
  ultimately show ?thesis using G(1) by blast
qed


section \<open>The state after a query\<close>

lemma scan_columns_st_rows:
  assumes "wf_grid G" "0 \<le> minx" "curx \<le> 100"
  shows "scan_columns_st d r curx minx maxy miny b G =
         Some (Inr (scan d r
           (concat (map (\<lambda>x. cell_points G x (clamp_index maxy) @ cell_points G x (clamp_index miny))
                        (rev [minx .. curx]))) b), G)"
  using assms(3)
proof (induction "nat (curx + 1 - minx)" arbitrary: curx maxy miny b)
  case 0
  then have "\<not> minx \<le> curx" by simp
  then show ?case by (subst scan_columns_st.simps) simp
next
  case (Suc n)
  then have ge: "minx \<le> curx" by linarith
  with assms(2) Suc.prems have cx: "0 \<le> curx" "curx \<le> 100" by simp_all
  let ?ty = "clamp_index maxy" and ?bo = "clamp_index miny"
  have rt: "(let m = (if maxy < 0 then 0 else maxy)
             in if m > hash_func MAX_coord then hash_func MAX_coord else m) = ?ty"
    by (simp add: clamp_index_def top_index hash_func_MAX Let_def)
  have rb: "(let m = (if miny < 0 then 0 else miny)
             in if m > hash_func MAX_coord then hash_func MAX_coord else m) = ?bo"
    by (simp add: clamp_index_def top_index hash_func_MAX Let_def)
  have ct: "read_cell curx ?ty G = (Inr (cell_points G curx ?ty), G)"
    using assms(1) cx clamp_index_range [of maxy]
    by (simp add: read_cell_def cell_in_range cell_points_in_range)
  have cb: "read_cell curx ?bo G = (Inr (cell_points G curx ?bo), G)"
    using assms(1) cx clamp_index_range [of miny]
    by (simp add: read_cell_def cell_in_range cell_points_in_range)
  have n: "n = nat (curx - 1 + 1 - minx)" using Suc.hyps(2) by linarith
  have IH: "scan_columns_st d r (curx - 1) minx ?ty ?bo b' G =
         Some (Inr (scan d r
           (concat (map (\<lambda>x. cell_points G x ?ty @ cell_points G x ?bo)
                        (rev [minx .. curx - 1]))) b'), G)" for b'
    using Suc.hyps(1) [OF n, of ?ty ?bo b'] cx by (simp add: clamp_index_idem)
  have step: "scan_columns_st d r curx minx maxy miny b G =
        scan_columns_st d r (curx - 1) minx ?ty ?bo
          (scan d r (cell_points G curx ?bo) (scan d r (cell_points G curx ?ty) b)) G"
    apply (subst scan_columns_st.simps)
    using ge cx rt rb ct cb
    apply (simp add: Let_def hash_func_MAX)
    done
  have up: "rev [minx .. curx] = curx # rev [minx .. curx - 1]"
    using ge by (simp add: upto_rec2)
  show ?case
    unfolding step IH up by (simp add: scan_append)
qed

lemma find_nearest_st_scan:
  assumes "wf_grid G"
  shows "find_nearest_st d maxx maxy minx miny r b G =
         Some (Inr (scan d r (ring_points G maxx maxy minx miny) b), G)"
proof -
  have c1: "clamp_index (if maxy > 100 then 100 else maxy) = clamp_index maxy"
    by (simp add: clamp_index_def top_index)
  have c2: "clamp_index (if miny < 0 then 0 else miny) = clamp_index miny"
    by (simp add: clamp_index_def top_index)
  have mx: "(if minx < 0 then 0 else minx) = max minx 0" by simp
  have Mx: "(if maxx > 100 then 100 else maxx) = min maxx 100" by simp
  show ?thesis
    unfolding find_nearest_st_def Let_def hash_func_MAX mx Mx ring_points_rows top_index
    by (subst scan_columns_st_rows [OF assms]) (simp_all add: c1 c2)
qed

lemma while_loop_st_found:
  "fstset b \<Longrightarrow> while_loop_st d r maxx maxy minx miny b G = Some (Inr (nearest b), G)"
  by (subst while_loop_st.simps) simp

lemma while_loop_st_exhausted:
  "\<not> fstset b \<Longrightarrow> rings_left maxx maxy minx miny = 0 \<Longrightarrow>
   while_loop_st d r maxx maxy minx miny b G = Some (Inr (Point (- 1) (- 1)), G)"
  by (subst while_loop_st.simps) (simp add: rings_left_zero)

lemma while_loop_st_step:
  assumes "wf_grid G" "\<not> fstset b" "rings_left maxx maxy minx miny \<noteq> 0"
  shows "while_loop_st d r maxx maxy minx miny b G =
         (let b1 = scan d r (ring_points G maxx maxy minx miny) b
          in if fstset b1
             then Some (Inr (nearest (scan d r (ring_points G (maxx + 1) (maxy + 1) (minx - 1)
                                       (miny - 1)) b1)), G)
             else while_loop_st d r (maxx + 1) (maxy + 1) (minx - 1) (miny - 1) b1 G)"
proof -
  from assms(3) have ne: "\<not> (hash_func MAX_coord < maxy \<and> hash_func MAX_coord < maxx
                               \<and> minx < 0 \<and> miny < 0)"
    by (simp add: rings_left_zero)
  show ?thesis
    by (subst while_loop_st.simps)
       (simp only: assms(2) ne find_nearest_st_scan [OF assms(1)] Let_def while_loop_st_found
                   scan_fstset not_False_eq_True if_True if_False option.case sum.case prod.case
             cong: if_cong)
qed

lemma while_loop_st_agrees:
  assumes "wf_grid G"
  shows "\<exists>p k. while_loop_st d r maxx maxy minx miny b G = Some (Inr p, G)
               \<and> while_loop d G r maxx maxy minx miny b n = Some (Inr (p, k))"
proof (induction "rings_left maxx maxy minx miny" arbitrary: maxx maxy minx miny b n)
  case 0
  then show ?case
    by (cases "fstset b")
       (simp_all add: while_loop_found while_loop_exhausted while_loop_st_found
                      while_loop_st_exhausted)
next
  case (Suc j)
  show ?case
  proof (cases "fstset b")
    case True
    then show ?thesis by (simp add: while_loop_found while_loop_st_found)
  next
    case False
    from Suc.hyps(2) have nz: "rings_left maxx maxy minx miny \<noteq> 0" by simp
    from rings_left_grow [OF nz] Suc.hyps(2)
    have j: "j = rings_left (maxx + 1) (maxy + 1) (minx - 1) (miny - 1)" by simp
    let ?b1 = "scan d r (ring_points G maxx maxy minx miny) b"
    show ?thesis
    proof (cases "fstset ?b1")
      case True
      then show ?thesis
        by (simp add: while_loop_step [OF assms False nz]
                      while_loop_st_step [OF assms False nz] Let_def)
    next
      case nf: False
      from Suc.hyps(1) [OF j, of ?b1 "Suc n"] show ?thesis
        using nf
        by (simp add: while_loop_step [OF assms False nz]
                      while_loop_st_step [OF assms False nz] Let_def)
    qed
  qed
qed

lemma nearest_neighbor_st_agrees:
  assumes "wf_grid G"
  shows "\<exists>p. nearest_neighbor_st d r G = Some (Inr p, G)
             \<and> nearest_neighbor d G r = Some (Inr p)"
  using while_loop_st_agrees [OF assms, of d r "hash_func (get r 0)" "hash_func (get r 1)"
          "hash_func (get r 0)" "hash_func (get r 1)"
          "\<lparr>nearest = Point 0 0, distv = DBL_MAX, fstset = False\<rparr>" 0]
  by (auto simp: nearest_neighbor_st_def nearest_neighbor_def nearest_neighbor_run_def Let_def)

section \<open>Claims\<close>

subsection \<open>C1: the result is the nearest stored point\<close>

text \<open>
  C1 asks that on a non-empty structure \<open>nearest_neighbor\<close> returns a stored point at
  minimal distance from the reference. The code does not: \<open>find_nearest\<close> reads only the
  top and the bottom row of a window (the loop over the columns at the sides is commented
  out), so a point in the row of the reference's bucket, in another column and away from
  the rows 0 and \<open>hash_func MAX\<close>, is never read. With \<open>(525, 505)\<close> as the only stored
  point and \<open>(505, 505)\<close> as reference the query returns \<open>(-1, -1)\<close>, which is not stored.
  With \<open>(511, 505)\<close> and \<open>(505, 519)\<close> stored it returns \<open>(505, 519)\<close>, at distance 14,
  and not \<open>(511, 505)\<close>, at distance 6.
\<close>

theorem nearest_neighbor_misses_home_row:
  "(insert_point empty_grid (Point 525 505) = Inr (one_point_grid 52 50 (Point 525 505))
    \<and> nearest_neighbor distance (one_point_grid 52 50 (Point 525 505)) (Point 505 505)
        = Some (Inr (Point (- 1) (- 1))))
   \<and> (\<exists>GRID. inserts empty_grid [Point 511 505, Point 505 519] = Inr GRID
         \<and> nearest_neighbor distance GRID (Point 505 505) = Some (Inr (Point 505 519))
         \<and> distance (Point 511 505) (Point 505 505) < distance (Point 505 519) (Point 505 505))"
  using home_row_point_missed farther_point_returned by (rule conjI)

subsection \<open>C2: the buckets read by \<open>find_nearest\<close>\<close>

text \<open>
  C2. For every window and reference point, \<open>find_nearest\<close> examines exactly the points of
  the buckets of the top row (\<open>y = maxy\<close>) and of the bottom row (\<open>y = miny\<close>) for every
  \<open>x\<close> of the clamped range, and no bucket of a row in between; \<open>maxy\<close> and \<open>miny\<close> are
  the variables of the function at the time of the read, that is, clamped to the grid.
  The call returns the result of visiting, in this order, the points of the buckets listed
  by \<open>perimeter_rows\<close>, and these are the buckets of the two rows.
\<close>

theorem find_nearest_scans_two_rows:
  assumes "wf_grid GRID"
  shows "find_nearest d GRID maxx maxy minx miny reference b =
           Some (Inr (scan d reference (ring_points GRID maxx maxy minx miny) b))
         \<and> ring_points GRID maxx maxy minx miny =
             concat (map (\<lambda>(x, y). cell_points GRID x y) (perimeter_rows maxx maxy minx miny))
         \<and> set (perimeter_rows maxx maxy minx miny) =
             {(x, y). max minx 0 \<le> x \<and> x \<le> min maxx (MAX_coord div DIV)
                      \<and> (y = clamp_index maxy \<or> y = clamp_index miny)}"
  using find_nearest_scan [OF assms] set_perimeter_rows
  by (simp add: ring_points_def)

text \<open>A window of four buckets around a grid that holds \<open>(5, 5)\<close>.\<close>

theorem find_nearest_scans_two_rows_witness:
  "wf_grid (one_point_grid 0 0 (Point 5 5))
   \<and> find_nearest distance (one_point_grid 0 0 (Point 5 5)) 1 1 0 0 (Point 0 0) no_best =
       Some (Inr \<lparr>nearest = Point 5 5, distv = sqrt 50, fstset = True\<rparr>)
   \<and> perimeter_rows 1 1 0 0 = [(1, 1), (1, 0), (0, 1), (0, 0)]"
proof -
  have wf: "wf_grid (one_point_grid 0 0 (Point 5 5))" by (rule wf_one_point_grid)
  have rows: "perimeter_rows 1 1 0 0 = [(1, 1), (1, 0), (0, 1), (0, 0)]"
    by (simp add: perimeter_rows_def clamp_index_def top_index upto.simps)
  have pts: "ring_points (one_point_grid 0 0 (Point 5 5)) 1 1 0 0 = [Point 5 5]"
    by (simp add: ring_points_def rows cell_points_one_point_grid)
  from find_nearest_scans_two_rows [OF wf, of distance 1 1 0 0 "Point 0 0" no_best]
  have "find_nearest distance (one_point_grid 0 0 (Point 5 5)) 1 1 0 0 (Point 0 0) no_best =
       Some (Inr \<lparr>nearest = Point 5 5, distv = sqrt 50, fstset = True\<rparr>)"
    by (simp add: pts visit_def no_best_def sqrt_50)
  with wf rows show ?thesis by simp
qed

subsection \<open>C3: the empty structure\<close>

text \<open>
  C3. \<open>nearest_neighbor\<close> called on a structure into which no point has ever been inserted
  returns the sentinel point \<open>(-1, -1)\<close>, for every reference point and distance.
\<close>

theorem nearest_neighbor_empty_sentinel:
  "nearest_neighbor d empty_grid reference = Some (Inr (Point (- 1) (- 1)))"
  by (simp add: nearest_neighbor_def
        nearest_neighbor_run_nothing [OF wf_grid_empty ring_points_empty_grid])

subsection \<open>C4: termination and the number of iterations\<close>



subsection \<open>C5: the bucket of an inserted point\<close>

text \<open>
  C5. After any sequence of \<open>insert\<close> operations on the structure, every inserted point
  resides in exactly the bucket \<open>(clamp(floor(x/DIV), 0, MAX/DIV), clamp(floor(y/DIV), 0, MAX/DIV))\<close>
  of its coordinates: every bucket holds the inserted points whose \<open>spec_cell\<close> it is, in
  the order of insertion and with their multiplicity, and nothing else. A coordinate below 0
  gives index 0 on its axis and a coordinate above \<open>MAX\<close> gives the index \<open>MAX/DIV\<close>.
  (\<open>hash_func\<close> truncates a quotient rounded to single precision, which differs from
  \<open>floor(x/DIV)\<close> for negative and for very large coordinates; the clamping removes the
  difference.)
\<close>

theorem inserted_points_reside_in_spec_cell:
  "\<exists>GRID. inserts empty_grid ps = Inr GRID \<and> wf_grid GRID
     \<and> (\<forall>x y. cell_points GRID x y = filter (\<lambda>p. spec_cell p = (x, y)) ps)
     \<and> (\<forall>p \<in> set ps.
           p \<in> set (cell_points GRID (fst (spec_cell p)) (snd (spec_cell p)))
           \<and> (get p 0 < 0 \<longrightarrow> fst (spec_cell p) = 0)
           \<and> (MAX_coord < get p 0 \<longrightarrow> fst (spec_cell p) = MAX_coord div DIV)
           \<and> (get p 1 < 0 \<longrightarrow> snd (spec_cell p) = 0)
           \<and> (MAX_coord < get p 1 \<longrightarrow> snd (spec_cell p) = MAX_coord div DIV))"
proof -
  from inserts_effect [OF wf_grid_empty, of ps] obtain G where
    G: "inserts empty_grid ps = Inr G" "wf_grid G"
       "\<And>x y. cell_points G x y = filter (\<lambda>p. spec_cell p = (x, y)) ps"
    by (auto simp: cell_points_empty)
  have low: "clamp_index (c div DIV) = 0" if "c < 0" for c
  proof -
    from that have "c div 10 < 0" by simp
    then show ?thesis by (simp add: clamp_index_def top_index DIV_def)
  qed
  have high: "clamp_index (c div DIV) = MAX_coord div DIV" if "MAX_coord < c" for c
  proof -
    from that have "100 \<le> c div 10" by (simp add: MAX_coord_def)
    then show ?thesis unfolding clamp_index_def top_index by (simp add: DIV_def)
  qed
  have "p \<in> set (cell_points G (fst (spec_cell p)) (snd (spec_cell p)))" if "p \<in> set ps" for p
    using that by (simp add: G(3))
  then show ?thesis using G low high by (auto simp: spec_cell_def)
qed

text \<open>Three insertions: one clamped on both axes, one inside, one on the upper border.\<close>

theorem inserted_points_reside_in_spec_cell_witness:
  "\<exists>GRID. inserts empty_grid [Point (- 3) 2000, Point 5 5, Point 1000 999] = Inr GRID
     \<and> cell_points GRID 0 100 = [Point (- 3) 2000]
     \<and> cell_points GRID 0 0 = [Point 5 5]
     \<and> cell_points GRID 100 99 = [Point 1000 999]
     \<and> cell_points GRID 1 1 = []"
proof -
  from inserted_points_reside_in_spec_cell [of "[Point (- 3) 2000, Point 5 5, Point 1000 999]"]
  obtain G where
    G: "inserts empty_grid [Point (- 3) 2000, Point 5 5, Point 1000 999] = Inr G"
       "\<And>x y. cell_points G x y =
           filter (\<lambda>p. spec_cell p = (x, y)) [Point (- 3) 2000, Point 5 5, Point 1000 999]"
    by blast
  have "cell_points G 0 100 = [Point (- 3) 2000]" "cell_points G 0 0 = [Point 5 5]"
    "cell_points G 100 99 = [Point 1000 999]" "cell_points G 1 1 = []"
    by (simp_all add: G(2) spec_cell_Point clamp_index_def top_index)
  with G(1) show ?thesis by blast
qed

subsection \<open>C6: windows outside the grid\<close>

text \<open>
  C6, amended. If the window passed to \<open>find_nearest\<close> lies entirely outside the valid
  range \<open>[0, hash_func MAX]\<close> on the x axis (\<open>maxx < 0\<close> or \<open>minx > hash_func MAX\<close>), the
  call reads no bucket and returns \<open>nearest_\<close>, \<open>dist_\<close> and \<open>fstset_\<close> unchanged. If it lies
  outside on the y axis, both rows are clamped to the border row next to the window (row 0
  when \<open>maxy < 0\<close>, row \<open>MAX/DIV\<close> when \<open>miny > hash_func MAX\<close>) and the buckets of that row
  are scanned for every \<open>x\<close> of the clamped range.
\<close>

theorem find_nearest_outside_window:
  "(maxx < 0 \<or> hash_func MAX_coord < minx \<longrightarrow>
      find_nearest d GRID maxx maxy minx miny reference b = Some (Inr b))
   \<and> (wf_grid GRID \<and> miny \<le> maxy \<and> maxy < 0 \<longrightarrow>
      find_nearest d GRID maxx maxy minx miny reference b =
        Some (Inr (scan d reference
          (concat (map (\<lambda>x. cell_points GRID x 0 @ cell_points GRID x 0)
                       (rev [max minx 0 .. min maxx (MAX_coord div DIV)]))) b)))
   \<and> (wf_grid GRID \<and> miny \<le> maxy \<and> hash_func MAX_coord < miny \<longrightarrow>
      find_nearest d GRID maxx maxy minx miny reference b =
        Some (Inr (scan d reference
          (concat (map (\<lambda>x. cell_points GRID x (MAX_coord div DIV)
                              @ cell_points GRID x (MAX_coord div DIV))
                       (rev [max minx 0 .. min maxx (MAX_coord div DIV)]))) b)))"
proof (intro conjI impI)
  assume "maxx < 0 \<or> hash_func MAX_coord < minx"
  then show "find_nearest d GRID maxx maxy minx miny reference b = Some (Inr b)"
    by (rule find_nearest_no_columns)
next
  assume a: "wf_grid GRID \<and> miny \<le> maxy \<and> maxy < 0"
  then have "clamp_index maxy = 0" "clamp_index miny = 0"
    by (simp_all add: clamp_index_def top_index)
  with a show "find_nearest d GRID maxx maxy minx miny reference b =
        Some (Inr (scan d reference
          (concat (map (\<lambda>x. cell_points GRID x 0 @ cell_points GRID x 0)
                       (rev [max minx 0 .. min maxx (MAX_coord div DIV)]))) b))"
    by (simp add: find_nearest_scan ring_points_rows)
next
  assume a: "wf_grid GRID \<and> miny \<le> maxy \<and> hash_func MAX_coord < miny"
  then have "clamp_index maxy = MAX_coord div DIV" "clamp_index miny = MAX_coord div DIV"
    by (simp_all add: clamp_index_def top_index hash_func_MAX)
  with a show "find_nearest d GRID maxx maxy minx miny reference b =
        Some (Inr (scan d reference
          (concat (map (\<lambda>x. cell_points GRID x (MAX_coord div DIV)
                              @ cell_points GRID x (MAX_coord div DIV))
                       (rev [max minx 0 .. min maxx (MAX_coord div DIV)]))) b))"
    by (simp add: find_nearest_scan ring_points_rows)
qed

text \<open>A window left of the grid, and a window above a grid with a point in its last row.\<close>

theorem find_nearest_outside_window_witness:
  "(- 1 :: int) < 0
   \<and> find_nearest distance (one_point_grid 0 0 (Point 5 5)) (- 1) 0 (- 1) 0 (Point 0 0) no_best
       = Some (Inr no_best)
   \<and> wf_grid (one_point_grid 0 100 (Point 5 1000)) \<and> (101 :: int) \<le> 101
   \<and> hash_func MAX_coord < 101
   \<and> find_nearest distance (one_point_grid 0 100 (Point 5 1000)) 0 101 0 101 (Point 5 1015)
        no_best
       = Some (Inr \<lparr>nearest = Point 5 1000, distv = distance (Point 5 1000) (Point 5 1015),
                    fstset = True\<rparr>)"
proof -
  let ?G = "one_point_grid 0 100 (Point 5 1000)"
  note t = find_nearest_outside_window
  have 1: "find_nearest distance (one_point_grid 0 0 (Point 5 5)) (- 1) 0 (- 1) 0 (Point 0 0)
             no_best = Some (Inr no_best)"
    using t [of "- 1" "- 1" distance "one_point_grid 0 0 (Point 5 5)" 0 0 "Point 0 0" no_best]
    by simp
  have wf: "wf_grid ?G" by (rule wf_one_point_grid)
  have h: "hash_func MAX_coord < 101" by (simp add: hash_func_MAX)
  have "find_nearest distance ?G 0 101 0 101 (Point 5 1015) no_best =
        Some (Inr (scan distance (Point 5 1015)
          (concat (map (\<lambda>x. cell_points ?G x (MAX_coord div DIV)
                              @ cell_points ?G x (MAX_coord div DIV))
                       (rev [max 0 0 .. min 0 (MAX_coord div DIV)]))) no_best))"
    using t [of 0 0 distance ?G 101 101 "Point 5 1015" no_best] wf h by simp
  also have "\<dots> = Some (Inr \<lparr>nearest = Point 5 1000,
                 distv = distance (Point 5 1000) (Point 5 1015), fstset = True\<rparr>)"
    by (simp add: top_index cell_points_one_point_grid visit_def no_best_def)
  finally show ?thesis using 1 wf h by simp
qed

text \<open>
  C6 as stated fails on the y axis: the window \<open>[0..0] x [-1..-1]\<close> lies below the grid,
  and the call scans bucket \<open>(0, 0)\<close> and sets all three outputs.
\<close>

theorem find_nearest_scans_border_row:
  "find_nearest distance (one_point_grid 0 0 (Point 5 5)) 0 (- 1) 0 (- 1) (Point 5 (- 15)) no_best
     = Some (Inr \<lparr>nearest = Point 5 5, distv = 20, fstset = True\<rparr>)
   \<and> find_nearest distance (one_point_grid 0 0 (Point 5 5)) 0 (- 1) 0 (- 1) (Point 5 (- 15)) no_best
     \<noteq> Some (Inr no_best)"
proof -
  let ?G = "one_point_grid 0 0 (Point 5 5)"
  have "ring_points ?G 0 (- 1) 0 (- 1) = [Point 5 5, Point 5 5]"
    by (simp add: ring_points_rows clamp_index_def top_index cell_points_one_point_grid)
  then have "find_nearest distance ?G 0 (- 1) 0 (- 1) (Point 5 (- 15)) no_best
     = Some (Inr \<lparr>nearest = Point 5 5, distv = 20, fstset = True\<rparr>)"
    by (simp add: find_nearest_scan [OF wf_one_point_grid] visit_def no_best_def sqrt_400)
  then show ?thesis by (simp add: no_best_def)
qed

subsection \<open>C7: one more scan after the first hit\<close>

text \<open>
  C7. Whenever a scan inside \<open>nearest_neighbor\<close> sets the found flag for the first time
  (the flag is unset before the scan of the current window, which is not past the grid on
  all four sides, and set after it), the loop performs exactly one more scan, on the window
  grown by one bucket in every direction, and returns the candidate of minimal distance
  among the points of both scans, in the same iteration: no further window is scanned.
\<close>

theorem one_more_ring_after_first_hit:
  assumes wf: "wf_grid GRID"
    and nf: "\<not> fstset b"
    and ne: "\<not> (hash_func MAX_coord < curmaxy \<and> hash_func MAX_coord < curmaxx
                  \<and> curminx < 0 \<and> curminy < 0)"
    and s1: "find_nearest d GRID curmaxx curmaxy curminx curminy reference b = Some (Inr b1)"
    and f1: "fstset b1"
  shows "\<exists>b2. find_nearest d GRID (curmaxx + 1) (curmaxy + 1) (curminx - 1) (curminy - 1)
                reference b1 = Some (Inr b2)
          \<and> while_loop d GRID reference curmaxx curmaxy curminx curminy b n
              = Some (Inr (nearest b2, Suc n))
          \<and> nearest b2 \<in> set (ring_points GRID curmaxx curmaxy curminx curminy)
                          \<union> set (ring_points GRID (curmaxx + 1) (curmaxy + 1) (curminx - 1)
                                   (curminy - 1))
          \<and> (\<forall>p \<in> set (ring_points GRID curmaxx curmaxy curminx curminy)
                     \<union> set (ring_points GRID (curmaxx + 1) (curmaxy + 1) (curminx - 1)
                              (curminy - 1)).
                d (nearest b2) reference \<le> d p reference)"
proof -
  let ?pts1 = "ring_points GRID curmaxx curmaxy curminx curminy"
  let ?pts2 = "ring_points GRID (curmaxx + 1) (curmaxy + 1) (curminx - 1) (curminy - 1)"
  let ?b2 = "scan d reference ?pts2 b1"
  from s1 have b1: "b1 = scan d reference ?pts1 b" by (simp add: find_nearest_scan [OF wf])
  with nf f1 have ne1: "?pts1 \<noteq> []" by auto
  have nz: "rings_left curmaxx curmaxy curminx curminy \<noteq> 0"
    using ne by (simp add: rings_left_zero)
  have second: "find_nearest d GRID (curmaxx + 1) (curmaxy + 1) (curminx - 1) (curminy - 1)
                  reference b1 = Some (Inr ?b2)"
    by (rule find_nearest_scan [OF wf])
  have loop: "while_loop d GRID reference curmaxx curmaxy curminx curminy b n
                = Some (Inr (nearest ?b2, Suc n))"
    using f1 by (simp add: while_loop_step [OF wf nf nz] Let_def b1 [symmetric])
  have both: "?b2 = scan d reference (?pts1 @ ?pts2) b" by (simp add: b1 scan_append)
  from ne1 have "?pts1 @ ?pts2 \<noteq> []" by simp
  from scan_best [OF nf this, of d reference]
  have "nearest ?b2 \<in> set (?pts1 @ ?pts2)"
    and "\<forall>p \<in> set (?pts1 @ ?pts2). d (nearest ?b2) reference \<le> d p reference"
    unfolding both by auto
  then show ?thesis using second loop by (intro exI [of _ ?b2]) simp
qed

text \<open>The first window of the query \<open>(0, 0)\<close> on a grid that holds \<open>(5, 5)\<close>.\<close>

theorem one_more_ring_after_first_hit_witness:
  "wf_grid (one_point_grid 0 0 (Point 5 5)) \<and> \<not> fstset no_best
   \<and> \<not> (hash_func MAX_coord < 0 \<and> hash_func MAX_coord < 0 \<and> (0::int) < 0 \<and> (0::int) < 0)
   \<and> find_nearest distance (one_point_grid 0 0 (Point 5 5)) 0 0 0 0 (Point 0 0) no_best
       = Some (Inr \<lparr>nearest = Point 5 5, distv = sqrt 50, fstset = True\<rparr>)
   \<and> while_loop distance (one_point_grid 0 0 (Point 5 5)) (Point 0 0) 0 0 0 0 no_best 0
       = Some (Inr (Point 5 5, Suc 0))"
proof -
  let ?G = "one_point_grid 0 0 (Point 5 5)"
  let ?b1 = "\<lparr>nearest = Point 5 5, distv = sqrt 50, fstset = True\<rparr>"
  have wf: "wf_grid ?G" by (rule wf_one_point_grid)
  have nf: "\<not> fstset no_best" by (simp add: no_best_def)
  have ne: "\<not> (hash_func MAX_coord < 0 \<and> hash_func MAX_coord < 0 \<and> (0::int) < 0 \<and> (0::int) < 0)"
    by simp
  have p1: "ring_points ?G 0 0 0 0 = [Point 5 5, Point 5 5]"
    by (simp add: ring_points_rows clamp_index_def top_index cell_points_one_point_grid)
  have p2: "ring_points ?G 1 1 (- 1) (- 1) = [Point 5 5]"
    by (simp add: ring_points_rows clamp_index_def top_index cell_points_one_point_grid
                  upto.simps)
  have s1: "find_nearest distance ?G 0 0 0 0 (Point 0 0) no_best = Some (Inr ?b1)"
    by (simp add: find_nearest_scan [OF wf] p1 visit_def no_best_def sqrt_50)
  have f1: "fstset ?b1" by simp
  have "while_loop distance ?G (Point 0 0) 0 0 0 0 no_best 0 = Some (Inr (Point 5 5, Suc 0))"
    using one_more_ring_after_first_hit [OF wf nf ne s1 f1, of 0] by (auto simp: p1 p2)
  with wf nf ne s1 show ?thesis by blast
qed

subsection \<open>C8: the effect of an insertion\<close>

text \<open>
  C8. For every point and every state of the structure, \<open>insert\<close> succeeds, appends the point
  to exactly one bucket, which grows by exactly one element, and leaves every other bucket
  unchanged; a point that is already stored is stored once more.
\<close>

theorem insert_grows_one_cell:
  assumes "wf_grid GRID"
  shows "\<exists>GRID' x y. insert_point GRID p = Inr GRID' \<and> wf_grid GRID'
           \<and> (x, y) = spec_cell p
           \<and> cell_points GRID' x y = cell_points GRID x y @ [p]
           \<and> length (cell_points GRID' x y) = Suc (length (cell_points GRID x y))
           \<and> count_list (cell_points GRID' x y) p = Suc (count_list (cell_points GRID x y) p)
           \<and> (\<forall>x' y'. (x', y') \<noteq> (x, y) \<longrightarrow> cell_points GRID' x' y' = cell_points GRID x' y')"
proof -
  from insert_point_effect [OF assms, of p] obtain G' where
    G': "insert_point GRID p = Inr G'" "wf_grid G'"
        "\<And>x y. cell_points G' x y =
           (if (x, y) = spec_cell p then cell_points GRID x y @ [p] else cell_points GRID x y)"
    by blast
  obtain x y where xy: "(x, y) = spec_cell p" by (metis surj_pair)
  have "cell_points G' x y = cell_points GRID x y @ [p]" by (simp add: G'(3) xy)
  moreover have "cell_points G' x' y' = cell_points GRID x' y'" if "(x', y') \<noteq> (x, y)" for x' y'
    using that by (simp add: G'(3) xy [symmetric])
  ultimately show ?thesis using G'(1,2) xy by (intro exI [of _ G'] exI [of _ x] exI [of _ y]) simp
qed

text \<open>Inserting \<open>(5, 5)\<close> into a grid that already holds it.\<close>

theorem insert_grows_one_cell_witness:
  "wf_grid (one_point_grid 0 0 (Point 5 5))
   \<and> (\<exists>GRID'. insert_point (one_point_grid 0 0 (Point 5 5)) (Point 5 5) = Inr GRID'
         \<and> cell_points GRID' 0 0 = [Point 5 5, Point 5 5]
         \<and> cell_points GRID' 0 1 = [])"
proof -
  let ?G = "one_point_grid 0 0 (Point 5 5)"
  have wf: "wf_grid ?G" by (rule wf_one_point_grid)
  have sc: "spec_cell (Point 5 5) = (0, 0)"
    by (simp add: spec_cell_Point clamp_index_def top_index)
  from insert_grows_one_cell [OF wf, of "Point 5 5"] obtain G' x y where
    G': "insert_point ?G (Point 5 5) = Inr G'" "(x, y) = spec_cell (Point 5 5)"
        "cell_points G' x y = cell_points ?G x y @ [Point 5 5]"
        "\<And>x' y'. (x', y') \<noteq> (x, y) \<Longrightarrow> cell_points G' x' y' = cell_points ?G x' y'"
    by blast
  from G'(2) sc have xy: "x = 0" "y = 0" by simp_all
  have "cell_points G' 0 0 = [Point 5 5, Point 5 5]"
    using G'(3) by (simp add: xy cell_points_one_point_grid)
  moreover have "cell_points G' 0 1 = []"
    using G'(4) [of 0 1] by (simp add: xy cell_points_one_point_grid)
  ultimately show ?thesis using wf G'(1) by blast
qed

subsection \<open>C9: every access to the grid is in bounds\<close>

text \<open>
  C9. For arbitrary integer coordinates of inserted points and reference points and arbitrary
  window bounds, no access to \<open>GRID\<close> in \<open>insert\<close>, \<open>find_nearest\<close> or \<open>nearest_neighbor\<close>
  is out of bounds: none of them returns \<open>OutOfBounds\<close>, and all of them return.
\<close>

theorem grid_accesses_in_bounds:
  assumes "wf_grid GRID"
  shows "(\<exists>GRID'. insert_point GRID p = Inr GRID' \<and> wf_grid GRID')
       \<and> (\<exists>b'. find_nearest d GRID maxx maxy minx miny reference b = Some (Inr b'))
       \<and> (\<exists>q. nearest_neighbor d GRID reference = Some (Inr q))"
proof -
  from insert_point_effect [OF assms, of p]
  have "\<exists>GRID'. insert_point GRID p = Inr GRID' \<and> wf_grid GRID'" by blast
  moreover have "\<exists>b'. find_nearest d GRID maxx maxy minx miny reference b = Some (Inr b')"
    by (simp add: find_nearest_scan [OF assms])
  moreover from nearest_neighbor_run_bound [OF assms, of d reference]
  have "\<exists>q. nearest_neighbor d GRID reference = Some (Inr q)"
    by (auto simp: nearest_neighbor_def)
  ultimately show ?thesis by blast
qed

text \<open>Coordinates and window bounds far outside the grid.\<close>

theorem grid_accesses_in_bounds_witness:
  "wf_grid empty_grid
   \<and> (\<exists>GRID'. insert_point empty_grid (Point (- 2000000000) 2000000000) = Inr GRID')
   \<and> (\<exists>b'. find_nearest distance empty_grid 5000 (- 7) (- 5000) (- 9) (Point 0 0) no_best
             = Some (Inr b'))
   \<and> (\<exists>q. nearest_neighbor distance empty_grid (Point 3000 (- 3000)) = Some (Inr q))"
proof -
  have "(\<exists>GRID'. insert_point empty_grid (Point (- 2000000000) 2000000000) = Inr GRID')
   \<and> (\<exists>b'. find_nearest distance empty_grid 5000 (- 7) (- 5000) (- 9) (Point 0 0) no_best
             = Some (Inr b'))"
    using grid_accesses_in_bounds [OF wf_grid_empty, of "Point (- 2000000000) 2000000000"
            distance 5000 "- 7" "- 5000" "- 9" "Point 0 0" no_best]
    by blast
  moreover have "\<exists>q. nearest_neighbor distance empty_grid (Point 3000 (- 3000)) = Some (Inr q)"
    using grid_accesses_in_bounds [OF wf_grid_empty, of _ distance _ _ _ _ "Point 3000 (- 3000)"]
    by blast
  ultimately show ?thesis using wf_grid_empty by blast
qed

subsection \<open>C10: queries are repeatable and do not change the grid\<close>

text \<open>
  C10. For every state of the structure and every reference point, a call of
  \<open>nearest_neighbor\<close> returns a point and leaves the object in the state it was called in, so
  that a second call with the same reference point, made in the state the first one leaves,
  returns the same point, and every bucket holds after each call what it held before. The
  state is the one the statements of the query hand on, from read to read; the point is the
  one \<open>nearest_neighbor\<close> above computes.
\<close>

theorem queries_repeatable:
  assumes "wf_grid GRID"
  shows "\<exists>p GRID1 GRID2.
           nearest_neighbor_st d reference GRID = Some (Inr p, GRID1)
           \<and> nearest_neighbor_st d reference GRID1 = Some (Inr p, GRID2)
           \<and> GRID1 = GRID \<and> GRID2 = GRID
           \<and> (\<forall>x y. cell GRID1 x y = cell GRID x y \<and> cell GRID2 x y = cell GRID x y)
           \<and> nearest_neighbor d GRID reference = Some (Inr p)"
  using nearest_neighbor_st_agrees [OF assms, of d reference] by auto

text \<open>A query \<open>(0, 0)\<close> on a grid that holds \<open>(5, 5)\<close>.\<close>

theorem queries_repeatable_witness:
  "wf_grid (one_point_grid 0 0 (Point 5 5))
   \<and> nearest_neighbor_st distance (Point 0 0) (one_point_grid 0 0 (Point 5 5))
       = Some (Inr (Point 5 5), one_point_grid 0 0 (Point 5 5))"
proof -
  let ?G = "one_point_grid 0 0 (Point 5 5)"
  let ?b = "\<lparr>nearest = Point 0 0, distv = DBL_MAX, fstset = False\<rparr>"
  have wf: "wf_grid ?G" by (rule wf_one_point_grid)
  have p1: "ring_points ?G 0 0 0 0 = [Point 5 5, Point 5 5]"
    by (simp add: ring_points_rows clamp_index_def top_index cell_points_one_point_grid)
  have p2: "ring_points ?G 1 1 (- 1) (- 1) = [Point 5 5]"
    by (simp add: ring_points_rows clamp_index_def top_index cell_points_one_point_grid
                  upto.simps)
  have r0: "rings_left 0 0 0 0 \<noteq> 0" by (simp add: rings_left_def top_index)
  have h0: "hash_func 0 = 0" by (simp add: hash_func_exact)
  have "while_loop distance ?G (Point 0 0) 0 0 0 0 ?b 0 = Some (Inr (Point 5 5, Suc 0))"
    by (simp add: while_loop_step [OF wf _ r0] p1 p2 visit_def)
  then have nn: "nearest_neighbor distance ?G (Point 0 0) = Some (Inr (Point 5 5))"
    by (simp add: nearest_neighbor_def nearest_neighbor_run_def get_def h0)
  from queries_repeatable [OF wf, of distance "Point 0 0"] nn
  have "nearest_neighbor_st distance (Point 0 0) ?G = Some (Inr (Point 5 5), ?G)" by auto
  with wf show ?thesis by simp
qed

end
